theory Spec2Isabelle
  imports
    Main
    "HOL-Library.Char_ord"
    "HOL-Library.List_Lexorder"
    "HOL-Library.Product_Lexorder"
    "HOL-Library.AList"
begin

section \<open>Offset frontier (\<^verbatim>\<open>dansdeals_play/utils.py\<close>)\<close>

text \<open>
  A Python \<^verbatim>\<open>Set[int]\<close> is modelled by the list of its elements in iteration order.
  The order in which a Python set is iterated is not specified, so every statement below
  is made for an arbitrary list and speaks about the offsets only through \<open>set\<close>.
  Python integers are unbounded: \<open>int\<close>.
\<close>

text \<open>
  \<^verbatim>\<open>
  def next_offset(offsets, current):
      candidates = [value for value in offsets if value > current]
      return min(candidates) if candidates else None
  \<close>
\<close>

definition next_offset :: "int list \<Rightarrow> int \<Rightarrow> int option" where
  "next_offset offsets current =
     (let candidates = [v \<leftarrow> offsets. v > current]
      in if candidates \<noteq> [] then Some (min_list candidates) else None)"

text \<open>
  \<^verbatim>\<open>
  def detect_step(offsets, default):
      ordered = sorted(offsets)
      diffs = [b - a for a, b in zip(ordered, ordered[1:]) if b > a]
      positives = [d for d in diffs if d > 0]
      return min(positives) if positives else default
  \<close>
  \<^verbatim>\<open>ordered[1:]\<close> of an empty list is the empty list, as \<open>tl []\<close> is.
\<close>

definition consecutive_diffs :: "int list \<Rightarrow> int list" where
  "consecutive_diffs ordered = [b - a. (a, b) \<leftarrow> zip ordered (tl ordered), b > a]"

definition detect_step :: "int list \<Rightarrow> int \<Rightarrow> int" where
  "detect_step offsets default_step =
     (let ordered = sort offsets;
          diffs = consecutive_diffs ordered;
          positives = [d \<leftarrow> diffs. d > 0]
      in if positives \<noteq> [] then min_list positives else default_step)"

subsection \<open>Links and query strings\<close>

text \<open>
  The links of a page are modelled as \<open>string\<close>; in them a decimal digit is one of the
  ten ASCII digits.
\<close>

definition is_digit :: "char \<Rightarrow> bool" where
  "is_digit c \<longleftrightarrow> c \<in> set ''0123456789''"

definition digit_val :: "char \<Rightarrow> int" where
  "digit_val c = int (of_char c) - 48"

text \<open>\<^verbatim>\<open>int(s)\<close> for a string of decimal digits.\<close>

definition int_of_digits :: "string \<Rightarrow> int" where
  "int_of_digits s = foldl (\<lambda>acc c. 10 * acc + digit_val c) 0 s"

text \<open>
  \<^verbatim>\<open>s.split(sep, 1)[0]\<close> is the part of \<open>s\<close> before the first \<open>sep\<close> (all of \<open>s\<close> when
  there is none); when \<open>sep\<close> occurs, \<^verbatim>\<open>s.split(sep, 1)[1]\<close> is the part after it.
\<close>

definition before_sep :: "char \<Rightarrow> string \<Rightarrow> string" where
  "before_sep sep s = takeWhile (\<lambda>c. c \<noteq> sep) s"

definition after_sep :: "char \<Rightarrow> string \<Rightarrow> string" where
  "after_sep sep s = tl (dropWhile (\<lambda>c. c \<noteq> sep) s)"

text \<open>
  \<^verbatim>\<open>parse_qs(urlparse(href).query)\<close> belongs to the Python standard library and is a
  parameter of the model: it maps each name present in the query string to the list of
  its values, which is never empty, so the list is kept as its first value and the rest.
\<close>

type_synonym query = "string \<rightharpoonup> string \<times> string list"

text \<open>
  \<^verbatim>\<open>
  def collect_offsets(soup, param, ident):
      offsets = set()
      for link in soup.select("div.pagelinks a.navPages"):
          href = link.get("href")
          if not href:
              continue
          parsed = urlparse(href)
          query = parse_qs(parsed.query)
          if param not in query:
              continue
          entry = query[param][0].split(";", 1)[0]
          if "." not in entry:
              continue
          current_ident, offset = entry.split(".", 1)
          if current_ident != ident:
              continue
          offset = offset.split("#", 1)[0]
          match = re.match(r"(\d+)", offset)
          if match:
              offsets.add(int(match.group(1)))
      offsets.add(0)
      return offsets
  \<close>
  The page is given by the \<^verbatim>\<open>href\<close> attributes of the anchors that
  \<^verbatim>\<open>soup.select("div.pagelinks a.navPages")\<close> returns, in document order, \<open>None\<close> for
  an anchor without the attribute. \<open>link_offset\<close> is the loop body: the offset that
  one anchor adds, or \<open>None\<close> when the iteration adds nothing.
\<close>

definition link_offset :: "(string \<Rightarrow> query) \<Rightarrow> string \<Rightarrow> string \<Rightarrow> string option \<Rightarrow> int option" where
  "link_offset parse_query param ident link =
     (case link of
        None \<Rightarrow> None
      | Some href \<Rightarrow>
          if href = [] then None
          else (case parse_query href param of
                  None \<Rightarrow> None
                | Some (first, _) \<Rightarrow>
                    (let entry = before_sep CHR '';'' first
                     in if CHR ''.'' \<notin> set entry then None
                        else (let current_ident = before_sep CHR ''.'' entry;
                                  offset = after_sep CHR ''.'' entry
                              in if current_ident \<noteq> ident then None
                                 else (let offset = before_sep CHR ''#'' offset;
                                           match = takeWhile is_digit offset
                                       in if match \<noteq> [] then Some (int_of_digits match)
                                          else None)))))"

fun collect_loop :: "(string \<Rightarrow> query) \<Rightarrow> string \<Rightarrow> string \<Rightarrow> int list \<Rightarrow> string option list \<Rightarrow> int list" where
  "collect_loop parse_query param ident offsets [] = offsets"
| "collect_loop parse_query param ident offsets (link # links) =
     collect_loop parse_query param ident
       (case link_offset parse_query param ident link of
          None \<Rightarrow> offsets
        | Some n \<Rightarrow> List.insert n offsets)
       links"

definition collect_offsets :: "(string \<Rightarrow> query) \<Rightarrow> string option list \<Rightarrow> string \<Rightarrow> string \<Rightarrow> int list" where
  "collect_offsets parse_query links param ident =
     List.insert 0 (collect_loop parse_query param ident [] links)"

subsection \<open>Texts and \<^verbatim>\<open>parse_int\<close>\<close>

text \<open>
  The exceptions that the modelled code raises: \<^verbatim>\<open>KeyError\<close> with the missing key,
  \<^verbatim>\<open>ValueError\<close>, and \<^verbatim>\<open>SelectorSyntaxError\<close> with the selector that was refused.
  Their messages are not modelled.
\<close>

datatype error =
    KeyError string
  | ValueError
  | SelectorSyntaxError string

text \<open>
  A text read from a page is a Python \<^verbatim>\<open>str\<close>: the list of its code points. Which code
  points are decimal digits, and with which value, is a table of the interpreter (the
  Unicode category Nd, used alike by \<^verbatim>\<open>\d\<close> in a \<^verbatim>\<open>str\<close> pattern and by \<^verbatim>\<open>int\<close>); so is
  the limit on the number of digits that \<^verbatim>\<open>int\<close> converts
  (\<^verbatim>\<open>sys.get_int_max_str_digits()\<close>, 4300 unless configured, 0 for no limit). Both are
  parameters of the model.
\<close>

type_synonym ustring = "nat list"

record python =
  decimal_value :: "nat \<Rightarrow> nat option"
  max_str_digits :: nat

definition code_points :: "string \<Rightarrow> ustring" where
  "code_points s = map of_char s"

definition is_decimal :: "python \<Rightarrow> nat \<Rightarrow> bool" where
  "is_decimal py c \<longleftrightarrow> decimal_value py c \<noteq> None"

text \<open>The table on the ASCII range: the digits \<^verbatim>\<open>0\<close> to \<^verbatim>\<open>9\<close> and nothing else.\<close>

definition ascii_digits :: "python \<Rightarrow> bool" where
  "ascii_digits py \<longleftrightarrow>
     (\<forall>c < 128. decimal_value py c = (if 48 \<le> c \<and> c \<le> 57 then Some (c - 48) else None))"

text \<open>
  \<^verbatim>\<open>int(s)\<close> for a non-empty text of decimal digits: the number they denote, unless there
  are more digits than the limit allows, when \<^verbatim>\<open>int\<close> raises \<^verbatim>\<open>ValueError\<close>.
\<close>

definition int_of_decimals :: "python \<Rightarrow> ustring \<Rightarrow> int" where
  "int_of_decimals py s =
     foldl (\<lambda>acc c. 10 * acc + (case decimal_value py c of Some d \<Rightarrow> int d | None \<Rightarrow> 0)) 0 s"

definition python_int :: "python \<Rightarrow> ustring \<Rightarrow> error + int" where
  "python_int py s =
     (if max_str_digits py \<noteq> 0 \<and> length s > max_str_digits py
      then Inl ValueError
      else Inr (int_of_decimals py s))"

text \<open>
  \<^verbatim>\<open>re.findall(r"\d+", s)\<close>: scanning from the left, a digit starts a match that takes
  every digit following it; any other character is passed over.
\<close>

function findall_digits :: "python \<Rightarrow> ustring \<Rightarrow> ustring list" where
  "findall_digits py [] = []"
| "findall_digits py (c # cs) =
     (if is_decimal py c
      then (c # takeWhile (is_decimal py) cs) # findall_digits py (dropWhile (is_decimal py) cs)
      else findall_digits py cs)"
  by pat_completeness auto
termination
  by (relation "measure (\<lambda>(py, s). length s)") (auto simp: less_Suc_eq_le length_dropWhile_le)

text \<open>\<^verbatim>\<open>s.replace(",", "")\<close>; the comma is the code point 44.\<close>

definition remove_commas :: "ustring \<Rightarrow> ustring" where
  "remove_commas s = [c \<leftarrow> s. c \<noteq> 44]"

text \<open>
  \<^verbatim>\<open>
  def parse_int(value):
      if not value:
          return None
      digits = re.findall(r"\d+", value.replace(",", ""))
      return int("".join(digits)) if digits else None
  \<close>
\<close>

definition parse_int :: "python \<Rightarrow> ustring option \<Rightarrow> error + int option" where
  "parse_int py v =
     (case v of
        None \<Rightarrow> Inr None
      | Some s \<Rightarrow>
          if s = [] then Inr None
          else (let digits = findall_digits py (remove_commas s)
                in if digits \<noteq> []
                   then (case python_int py (concat digits) of
                           Inl e \<Rightarrow> Inl e
                         | Inr n \<Rightarrow> Inr (Some n))
                   else Inr None))"

text \<open>
  An interpreter with the default limit whose digit table is given on the ASCII range
  only, for running the functions on ASCII texts.
\<close>

definition example_python :: python where
  "example_python =
     \<lparr>decimal_value = (\<lambda>c. if 48 \<le> c \<and> c \<le> 57 then Some (c - 48) else None),
      max_str_digits = 4300\<rparr>"

section \<open>The spider (\<^verbatim>\<open>dansdeals_play/spiders/tech_talk.py\<close>)\<close>

subsection \<open>Requests, responses and their metadata\<close>

text \<open>
  \<^verbatim>\<open>cf_mode\<close> is checked in \<^verbatim>\<open>__init__\<close> to be \<^verbatim>\<open>"auto"\<close> or \<^verbatim>\<open>"manual"\<close>.
\<close>

datatype cf_mode = Auto | Manual

text \<open>
  The values that the spider stores in a request's \<^verbatim>\<open>meta\<close> dict: integers (offsets,
  counters), strings (identifiers, the context name), the flag \<^verbatim>\<open>playwright\<close>, the page
  methods (method name and argument), the context arguments and the page-init callback.
\<close>

datatype page_arg = StrArg string | IntArg int

record context_kwargs =
  ignore_https_errors :: bool
  user_agent :: string
  viewport :: "int \<times> int"
  storage_state :: "string option"

datatype meta_value =
    IntV int
  | StrV string
  | BoolV bool
  | PageMethods "(string \<times> page_arg) list"
  | ContextKwargs context_kwargs
  | EnableStealth

type_synonym meta = "string \<rightharpoonup> meta_value"

text \<open>
  \<^verbatim>\<open>meta.get(key, default)\<close> for a key under which the spider stores integers only.
\<close>

definition meta_get_int :: "meta \<Rightarrow> string \<Rightarrow> int \<Rightarrow> int" where
  "meta_get_int m key default_value =
     (case m key of Some (IntV n) \<Rightarrow> n | _ \<Rightarrow> default_value)"

datatype callback = ParseBoard | ParseTopic

record request =
  url :: string
  callback :: callback
  req_meta :: meta
  dont_filter :: bool

text \<open>
  A response carries its status, its URL, the metadata of the request it answers, that
  request, and the page. The page is kept abstract here (\<open>'p\<close>); the parts of it that
  the callbacks read are introduced with the callbacks.
\<close>

record 'p response =
  status :: int
  resp_url :: string
  resp_meta :: meta
  resp_request :: request
  page :: 'p

text \<open>
  The spider object: its configuration and the three attributes that the callbacks
  mutate (\<^verbatim>\<open>board_pages_processed\<close>, \<^verbatim>\<open>topic_seen\<close>, \<^verbatim>\<open>board_metadata_emitted\<close>).
  \<open>storage_state_file\<close> is \<^verbatim>\<open>str(self.storage_state_path)\<close> when the path is set and
  the file exists, which is what \<^verbatim>\<open>_build_meta\<close> tests. \<^verbatim>\<open>topic_seen\<close> is a Python set,
  kept as the list of its elements.
\<close>

record spider =
  cf_mode :: cf_mode
  board_id :: string
  fetch_posts :: bool
  max_board_pages :: "int option"
  max_topics :: "int option"
  topic_max_pages :: "int option"
  storage_state_file :: "string option"
  board_pages_processed :: int
  topic_seen :: "string list"
  board_metadata_emitted :: bool

definition cf_max_retries :: int where
  "cf_max_retries = 3"

definition default_user_agent :: string where
  "default_user_agent =
     ''Mozilla/5.0 (Windows NT 10.0; Win64; x64) AppleWebKit/537.36 '' @
     ''(KHTML, like Gecko) Chrome/119.0.0.0 Safari/537.36''"

text \<open>
  \<^verbatim>\<open>
  def _build_meta(self, extra=None, *, new_context=False):
      page_methods = [PageMethod("wait_for_load_state", "domcontentloaded")]
      if self.cf_mode != "manual":
          page_methods.extend([PageMethod("wait_for_load_state", "networkidle"),
                               PageMethod("wait_for_timeout", 8000)])
      meta = {"playwright": True,
              "playwright_page_methods": page_methods,
              "playwright_context_kwargs": {"ignore_https_errors": True,
                  "user_agent": self.default_user_agent,
                  "viewport": {"width": 1280, "height": 720}}}
      if self.cf_mode != "manual":
          meta["playwright_page_init_callback"] = enable_stealth
      if self.storage_state_path and self.storage_state_path.exists():
          meta["playwright_context_kwargs"]["storage_state"] = str(self.storage_state_path)
      if new_context:
          meta["playwright_context"] = f"context-{uuid.uuid4()}"
      if extra:
          meta.update(extra)
      return meta
  \<close>
  The value drawn by \<^verbatim>\<open>uuid.uuid4()\<close> is the argument \<open>uuid\<close>. An empty \<^verbatim>\<open>extra\<close> is
  skipped by the source; updating with an empty dict changes nothing, so \<open>++\<close> covers
  both cases.
\<close>

definition build_meta :: "spider \<Rightarrow> string \<Rightarrow> meta \<Rightarrow> bool \<Rightarrow> meta" where
  "build_meta self uuid extra new_context =
     (let page_methods =
            [(''wait_for_load_state'', StrArg ''domcontentloaded'')] @
            (if cf_mode self \<noteq> Manual
             then [(''wait_for_load_state'', StrArg ''networkidle''),
                   (''wait_for_timeout'', IntArg 8000)]
             else []);
          kwargs = \<lparr>ignore_https_errors = True, user_agent = default_user_agent,
                    viewport = (1280, 720), storage_state = storage_state_file self\<rparr>;
          m0 = [''playwright'' \<mapsto> BoolV True,
                ''playwright_page_methods'' \<mapsto> PageMethods page_methods,
                ''playwright_context_kwargs'' \<mapsto> ContextKwargs kwargs];
          m1 = (if cf_mode self \<noteq> Manual
                then m0(''playwright_page_init_callback'' \<mapsto> EnableStealth) else m0);
          m2 = (if new_context
                then m1(''playwright_context'' \<mapsto> StrV (''context-'' @ uuid)) else m1)
      in m2 ++ extra)"

text \<open>
  \<^verbatim>\<open>
  def _retry_with_new_context(self, response):
      if self.cf_mode == "manual":
          self.logger.error(...)
          return None
      retry_count = response.meta.get("cf_retry", 0)
      if retry_count >= self.cf_max_retries:
          self.logger.error(...)
          return None
      extra = {key: value for key, value in response.meta.items()
               if key in {"board_offset", "topic_offset", "board_id", "topic_id"}}
      extra["cf_retry"] = retry_count + 1
      request = response.request.replace(
          meta=self._build_meta(extra, new_context=True), dont_filter=True)
      self.logger.warning(...)
      return request
  \<close>
\<close>

definition retry_with_new_context :: "spider \<Rightarrow> string \<Rightarrow> 'p response \<Rightarrow> request option" where
  "retry_with_new_context self uuid response =
     (if cf_mode self = Manual then None
      else (let retry_count = meta_get_int (resp_meta response) ''cf_retry'' 0
            in if retry_count \<ge> cf_max_retries then None
               else (let extra = resp_meta response |`
                                   {''board_offset'', ''topic_offset'', ''board_id'', ''topic_id''};
                         extra = extra(''cf_retry'' \<mapsto> IntV (retry_count + 1));
                         request = (resp_request response)
                                     \<lparr>req_meta := build_meta self uuid extra True,
                                      dont_filter := True\<rparr>
                     in Some request)))"

text \<open>
  A page that answers every attempt with a challenge status: the response to a retried
  request has the same status, URL and page, and carries the metadata of the request it
  answers. \<open>challenged_retries\<close> lists the requests that the retry controller issues for
  such a page, the \<open>i\<close>-th retry drawing the context name \<open>uuids i\<close>.
\<close>

definition challenged_again :: "'p response \<Rightarrow> request \<Rightarrow> 'p response" where
  "challenged_again response request =
     response\<lparr>resp_meta := req_meta request, resp_request := request\<rparr>"

function challenged_retries :: "spider \<Rightarrow> (nat \<Rightarrow> string) \<Rightarrow> 'p response \<Rightarrow> request list" where
  "challenged_retries self uuids response =
     (case retry_with_new_context self (uuids 0) response of
        None \<Rightarrow> []
      | Some request \<Rightarrow>
          request # challenged_retries self (\<lambda>i. uuids (Suc i)) (challenged_again response request))"
  by pat_completeness auto

termination
proof (relation "measure (\<lambda>(self, uuids, response).
         nat (cf_max_retries - meta_get_int (resp_meta response) ''cf_retry'' 0))", goal_cases)
  case 1
  show ?case by simp
next
  case (2 self uuids response request)
  let ?n = "meta_get_int (resp_meta response) ''cf_retry'' 0"
  from 2 have lt: "?n < cf_max_retries"
    by (simp add: retry_with_new_context_def Let_def split: if_splits)
  from 2 have "req_meta request ''cf_retry'' = Some (IntV (?n + 1))"
    by (auto simp: retry_with_new_context_def Let_def build_meta_def split: if_splits)
  then have "meta_get_int (resp_meta (challenged_again response request)) ''cf_retry'' 0 = ?n + 1"
    by (simp add: challenged_again_def meta_get_int_def)
  with lt show ?case by simp
qed

declare challenged_retries.simps [simp del]

subsection \<open>Items and pages\<close>

text \<open>
  The library functions that the callbacks call are parameters of the model:
  \<^verbatim>\<open>parse_qs(urlparse(url).query)\<close>, \<^verbatim>\<open>urlencode\<close> of a dict given as its list of pairs,
  \<^verbatim>\<open>str\<close> of an integer (inside the f-strings), whether the CSS selector library accepts
  a selector (\<^verbatim>\<open>select_one\<close> raises \<^verbatim>\<open>SelectorSyntaxError\<close> for one it does not), what
  \<^verbatim>\<open>scrapy.Request\<close> makes of a URL (the escaped URL that the request keeps, or the
  exception raised for a URL that it refuses, such as \<^verbatim>\<open>ValueError\<close> for a URL without a
  scheme), and the interpreter's digit table and limit.
\<close>

record stdlib =
  parse_query :: "string \<Rightarrow> query"
  urlencode :: "(string \<times> string) list \<Rightarrow> string"
  str_of_int :: "int \<Rightarrow> string"
  css_ok :: "string \<Rightarrow> bool"
  request_url :: "string \<Rightarrow> error + string"
  interpreter :: python

text \<open>
  \<^verbatim>\<open>scrapy.Request(url, callback=..., meta=...)\<close>, and whether it accepts a URL.
\<close>

definition scrapy_request :: "stdlib \<Rightarrow> string \<Rightarrow> callback \<Rightarrow> meta \<Rightarrow> error + request" where
  "scrapy_request lib u cb m =
     (case request_url lib u of
        Inl e \<Rightarrow> Inl e
      | Inr escaped \<Rightarrow> Inr \<lparr>url = escaped, callback = cb, req_meta = m, dont_filter = False\<rparr>)"

definition request_url_ok :: "stdlib \<Rightarrow> string \<Rightarrow> bool" where
  "request_url_ok lib u \<longleftrightarrow> \<not> isl (request_url lib u)"

record board_info =
  b_board_id :: string
  b_name :: string
  b_description :: string
  b_topics :: "int option"
  b_posts :: "int option"
  b_url :: string

record topic_summary =
  t_board_id :: string
  t_board_offset :: int
  t_topic_id :: string
  t_subject :: string
  t_starter :: string
  t_replies :: "int option"
  t_views :: "int option"
  t_last_post_author :: "string option"
  t_last_post_time :: "string option"
  t_last_post_link :: "string option"
  t_topic_url :: string
  t_page_url :: string

text \<open>
  A post. The texts that \<^verbatim>\<open>_extract_posts\<close> reads from the wrapper with selectors
  (author, subject, times, content, signature, attachments) depend on the wrapper and
  on the post id only; they are the component \<open>p_details\<close>.
\<close>

record 'd post =
  p_board_id :: string
  p_topic_id :: string
  p_post_id :: string
  p_position :: int
  p_likes :: "int option"
  p_details :: 'd
  p_page_url :: string

datatype 'd item =
    BoardInfoItem board_info
  | TopicSummaryItem topic_summary
  | PostItem "'d post"

datatype 'd yielded = Item "'d item" | Request request

text \<open>
  What the selectors find on a board page: the texts used for the board metadata, the
  rows of the topic table, and the \<^verbatim>\<open>href\<close>s of the pagination anchors. In a row,
  \<open>row_subject_link\<close> is the \<^verbatim>\<open>href\<close> attribute (\<open>None\<close> when missing) and the text of the
  subject link, \<open>None\<close> when the row has no subject link; \<open>row_stats_text\<close> is the text
  of the statistics cell, empty when there is none; the other fields are the texts that
  \<^verbatim>\<open>_extract_topics\<close> reads from the row.
\<close>

record topic_row =
  row_subject_link :: "(string option \<times> string) option"
  row_starter :: string
  row_stats_text :: ustring
  row_last_post_author :: "string option"
  row_last_post_time :: "string option"
  row_last_post_link :: "string option"

record board_page =
  nav_title :: "string option"
  head_title :: "string option"
  description :: "string option"
  stats_text :: ustring
  topic_rows :: "topic_row list"
  board_page_links :: "string option list"

text \<open>
  On a topic page, each \<^verbatim>\<open>div.post_wrapper\<close> gives \<open>content_id\<close>: \<open>None\<close> when it has no
  \<^verbatim>\<open>div.post div.inner\<close>, otherwise the \<^verbatim>\<open>id\<close> attribute of that element, the empty
  string when the attribute is missing (\<^verbatim>\<open>content_div.get("id", "")\<close>); \<open>likes_text\<close>
  is the text of \<^verbatim>\<open>div.like_post_box span\<close>, \<open>None\<close> when there is no such element.
\<close>

record 'd wrapper =
  content_id :: "string option"
  likes_text :: "ustring option"
  details :: "string \<Rightarrow> 'd"

record 'd topic_page =
  wrappers :: "'d wrapper list"
  topic_page_links :: "string option list"

subsection \<open>Board pages\<close>

text \<open>
  \<^verbatim>\<open>
  def parse_topic_id(url):
      parsed = urlparse(url)
      qs = parse_qs(parsed.query)
      if "topic" not in qs:
          return None
      value = qs["topic"][0].split(";", 1)[0]
      return value.split(".", 1)[0]
  \<close>
\<close>

definition parse_topic_id :: "stdlib \<Rightarrow> string \<Rightarrow> string option" where
  "parse_topic_id lib u =
     (case parse_query lib u ''topic'' of
        None \<Rightarrow> None
      | Some (first, _) \<Rightarrow> Some (before_sep CHR ''.'' (before_sep CHR '';'' first)))"

text \<open>
  \<^verbatim>\<open>_build_board_info\<close>: the title is the navigation title, or else the page title, or
  else \<^verbatim>\<open>f"Board {self.board_id}"\<close>; the post count is \<^verbatim>\<open>parse_int\<close> of the statistics
  text when there is one, and \<^verbatim>\<open>parse_int\<close> may raise.
\<close>

definition build_board_info :: "stdlib \<Rightarrow> spider \<Rightarrow> board_page \<Rightarrow> string \<Rightarrow> error + board_info" where
  "build_board_info lib self soup u =
     (let title = (case nav_title soup of
                     Some t \<Rightarrow> if t \<noteq> [] then Some t else None
                   | None \<Rightarrow> None);
          title = (case title of
                     Some t \<Rightarrow> t
                   | None \<Rightarrow> (case head_title soup of
                                Some t \<Rightarrow> t
                              | None \<Rightarrow> ''Board '' @ board_id self));
          descr = (case description soup of Some d \<Rightarrow> d | None \<Rightarrow> [])
      in case (if stats_text soup \<noteq> [] then parse_int (interpreter lib) (Some (stats_text soup))
               else Inr None) of
           Inl e \<Rightarrow> Inl e
         | Inr posts \<Rightarrow>
             Inr \<lparr>b_board_id = board_id self, b_name = title, b_description = descr,
                  b_topics = None, b_posts = posts, b_url = u\<rparr>)"

text \<open>
  The numbers of a statistics cell:
  \<^verbatim>\<open>[int(num.replace(",", "")) for num in re.findall(r"\d[\d,]*", stats_text)]\<close>.
  \<open>findall_numbers\<close> is the \<^verbatim>\<open>findall\<close>: a match starts at a decimal digit and takes the
  decimal digits and commas that follow. \<open>python_ints\<close> is the comprehension; the first
  \<^verbatim>\<open>int\<close> that raises ends it.
\<close>

function findall_numbers :: "python \<Rightarrow> ustring \<Rightarrow> ustring list" where
  "findall_numbers py [] = []"
| "findall_numbers py (c # cs) =
     (if is_decimal py c
      then (c # takeWhile (\<lambda>x. is_decimal py x \<or> x = 44) cs)
             # findall_numbers py (dropWhile (\<lambda>x. is_decimal py x \<or> x = 44) cs)
      else findall_numbers py cs)"
  by pat_completeness auto
termination
  by (relation "measure (\<lambda>(py, s). length s)") (auto simp: less_Suc_eq_le length_dropWhile_le)

fun python_ints :: "python \<Rightarrow> ustring list \<Rightarrow> error + int list" where
  "python_ints py [] = Inr []"
| "python_ints py (num # nums) =
     (case python_int py (remove_commas num) of
        Inl e \<Rightarrow> Inl e
      | Inr n \<Rightarrow> (case python_ints py nums of
                   Inl e \<Rightarrow> Inl e
                 | Inr ns \<Rightarrow> Inr (n # ns)))"

text \<open>
  The body of the loop of \<^verbatim>\<open>_extract_topics\<close> for one row. \<open>Inr None\<close> is \<^verbatim>\<open>continue\<close>: a
  row without a subject link, or whose link has no topic id (\<^verbatim>\<open>parse_topic_id\<close> of a
  missing \<^verbatim>\<open>href\<close> is \<^verbatim>\<open>None\<close>, and \<^verbatim>\<open>if not topic_id\<close> also skips the empty id), is skipped.
  After that the numbers of the statistics cell are converted, which may raise.
\<close>

definition extract_topic :: "stdlib \<Rightarrow> spider \<Rightarrow> int \<Rightarrow> string \<Rightarrow> topic_row \<Rightarrow> error + topic_summary option" where
  "extract_topic lib self offset page_url row =
     (case row_subject_link row of
        None \<Rightarrow> Inr None
      | Some (None, subject) \<Rightarrow> Inr None
      | Some (Some topic_url, subject) \<Rightarrow>
          (case parse_topic_id lib topic_url of
             None \<Rightarrow> Inr None
           | Some topic_id \<Rightarrow>
               if topic_id = [] then Inr None
               else (case python_ints (interpreter lib)
                            (findall_numbers (interpreter lib) (row_stats_text row)) of
                       Inl e \<Rightarrow> Inl e
                     | Inr numbers \<Rightarrow>
                         Inr (Some \<lparr>t_board_id = board_id self, t_board_offset = offset,
                            t_topic_id = topic_id, t_subject = subject,
                            t_starter = row_starter row,
                            t_replies = (if numbers \<noteq> [] then Some (numbers ! 0) else None),
                            t_views = (if length numbers > 1 then Some (numbers ! 1) else None),
                            t_last_post_author = row_last_post_author row,
                            t_last_post_time = row_last_post_time row,
                            t_last_post_link = row_last_post_link row,
                            t_topic_url = topic_url, t_page_url = page_url\<rparr>))))"

text \<open>
  \<^verbatim>\<open>
  def _schedule_topic(self, topic_id, url, offset):
      yield scrapy.Request(url, callback=self.parse_topic,
          meta=self._build_meta({"board_id": self.board_id, "topic_id": topic_id,
                                 "topic_offset": offset, "cf_retry": 0}))
  \<close>
  The metadata are built before the request, and building the request may raise.
\<close>

definition schedule_topic :: "stdlib \<Rightarrow> spider \<Rightarrow> string \<Rightarrow> string \<Rightarrow> int \<Rightarrow> error + request" where
  "schedule_topic lib self topic_id u offset =
     scrapy_request lib u ParseTopic
       (build_meta self []
          [''board_id'' \<mapsto> StrV (board_id self), ''topic_id'' \<mapsto> StrV topic_id,
           ''topic_offset'' \<mapsto> IntV offset, ''cf_retry'' \<mapsto> IntV 0] False)"

text \<open>
  The loop over the topics of a board page:
  \<^verbatim>\<open>
  topics = self._extract_topics(soup, board_offset, response.url)
  for topic in topics:
      if topic["topic_id"] in self.topic_seen:
          continue
      if self.max_topics and len(self.topic_seen) >= self.max_topics:
          break
      self.topic_seen.add(topic["topic_id"])
      yield TopicSummaryItem(**topic)
      if self.fetch_posts:
          yield from self._schedule_topic(topic["topic_id"], topic["topic_url"], 0)
  \<close>
  \<^verbatim>\<open>_extract_topics\<close> is a generator, so the rows are read one at a time as the loop asks
  for the next topic. \<^verbatim>\<open>self.max_topics and ...\<close> is false for \<^verbatim>\<open>None\<close> and for 0. The
  result is the spider, what was yielded, and the exception that ended the loop, if
  any: what was yielded before an exception has been yielded, and the id whose request
  could not be built is in the set.
\<close>

fun topics_loop :: "stdlib \<Rightarrow> int \<Rightarrow> string \<Rightarrow> spider \<Rightarrow> topic_row list \<Rightarrow> spider \<times> 'd yielded list \<times> error option" where
  "topics_loop lib offset page_url self [] = (self, [], None)"
| "topics_loop lib offset page_url self (row # rows) =
     (case extract_topic lib self offset page_url row of
        Inl e \<Rightarrow> (self, [], Some e)
      | Inr None \<Rightarrow> topics_loop lib offset page_url self rows
      | Inr (Some topic) \<Rightarrow>
          if t_topic_id topic \<in> set (topic_seen self)
          then topics_loop lib offset page_url self rows
          else if (case max_topics self of
                     None \<Rightarrow> False
                   | Some m \<Rightarrow> m \<noteq> 0 \<and> int (length (topic_seen self)) \<ge> m)
          then (self, [], None)
          else (let self1 = self\<lparr>topic_seen := topic_seen self @ [t_topic_id topic]\<rparr>
                in if fetch_posts self
                   then (case schedule_topic lib self1 (t_topic_id topic) (t_topic_url topic) 0 of
                           Inl e \<Rightarrow> (self1, [Item (TopicSummaryItem topic)], Some e)
                         | Inr r \<Rightarrow>
                             (case topics_loop lib offset page_url self1 rows of
                                (self2, out, err) \<Rightarrow>
                                  (self2, Item (TopicSummaryItem topic) # Request r # out, err)))
                   else (case topics_loop lib offset page_url self1 rows of
                           (self2, out, err) \<Rightarrow>
                             (self2, Item (TopicSummaryItem topic) # out, err))))"

text \<open>
  \<^verbatim>\<open>parse_board\<close>. A challenge status gives the retry request, if any, and nothing else.
  Otherwise: the board metadata once per run, the topics, the page counter and its
  limit, and the request for the next board page when \<^verbatim>\<open>next_offset\<close> finds one. The
  third component of the result is the exception that ended the call, if any.
\<close>

definition parse_board :: "stdlib \<Rightarrow> string \<Rightarrow> spider \<Rightarrow> board_page response \<Rightarrow> spider \<times> 'd yielded list \<times> error option" where
  "parse_board lib uuid self response =
     (if status response \<in> {403, 520}
      then (self,
            (case retry_with_new_context self uuid response of
               None \<Rightarrow> []
             | Some retry_request \<Rightarrow> [Request retry_request]),
            None)
      else (let board_offset = meta_get_int (resp_meta response) ''board_offset'' 0;
                soup = page response
            in case (if \<not> board_metadata_emitted self
                     then (case build_board_info lib self soup (resp_url response) of
                             Inl e \<Rightarrow> Inl e
                           | Inr info \<Rightarrow>
                               Inr (self\<lparr>board_metadata_emitted := True\<rparr>,
                                    [Item (BoardInfoItem info)]))
                     else Inr (self, [])) of
                 Inl e \<Rightarrow> (self, [], Some e)
               | Inr (self1, out1) \<Rightarrow>
            (case topics_loop lib board_offset (resp_url response) self1 (topic_rows soup) of
               (self2, out2, Some e) \<Rightarrow> (self2, out1 @ out2, Some e)
             | (self2, out2, None) \<Rightarrow>
            (let self3 = self2\<lparr>board_pages_processed := board_pages_processed self2 + 1\<rparr>
             in if (case max_board_pages self3 of
                      None \<Rightarrow> False
                    | Some m \<Rightarrow> m \<noteq> 0 \<and> board_pages_processed self3 \<ge> m)
                then (self3, out1 @ out2, None)
                else (let offsets = collect_offsets (parse_query lib) (board_page_links soup)
                                      ''board'' (board_id self3);
                          step = detect_step offsets 25
                      in case next_offset offsets board_offset of
                           None \<Rightarrow> (self3, out1 @ out2, None)
                         | Some next_off \<Rightarrow>
                             (case scrapy_request lib
                                     (''https://forums.dansdeals.com/index.php?'' @
                                        urlencode lib [(''board'',
                                          board_id self3 @ ''.'' @ str_of_int lib next_off)])
                                     ParseBoard
                                     (build_meta self3 []
                                        [''board_offset'' \<mapsto> IntV next_off,
                                         ''board_step'' \<mapsto> IntV step,
                                         ''cf_retry'' \<mapsto> IntV 0] False) of
                                Inl e \<Rightarrow> (self3, out1 @ out2, Some e)
                              | Inr r \<Rightarrow> (self3, out1 @ out2 @ [Request r], None)))))))"

subsection \<open>Topic pages\<close>

text \<open>
  \<^verbatim>\<open>s.replace(old, new)\<close> for a non-empty \<open>old\<close>: every occurrence of \<open>old\<close>, found from the
  left and not overlapping, is replaced.
\<close>

function str_replace :: "string \<Rightarrow> string \<Rightarrow> string \<Rightarrow> string" where
  "str_replace old new s =
     (if s = [] \<or> old = [] then s
      else if take (length old) s = old
           then new @ str_replace old new (drop (length old) s)
           else hd s # str_replace old new (tl s))"
  by pat_completeness auto
termination
  by (relation "measure (\<lambda>(old, new, s). length s)") auto

declare str_replace.simps [simp del]

text \<open>
  \<^verbatim>\<open>
  def _extract_posts(self, soup, board_id, topic_id, offset, page_url):
      wrappers = soup.select("div#forumposts div.post_wrapper")
      for idx, wrapper in enumerate(wrappers):
          content_div = wrapper.select_one("div.post div.inner")
          if not content_div:
              continue
          post_id_attr = content_div.get("id", "")
          if not post_id_attr.startswith("msg_"):
              continue
          post_id = post_id_attr.replace("msg_", "")
          ...
          extra_info = wrapper.select_one(f"ul#msg_{post_id}_extra_info")
          ...
          subject_el = wrapper.select_one(f"h5#subject_{post_id} a")
          ...
          likes_span = wrapper.select_one("div.like_post_box span")
          likes = parse_int(likes_span.get_text(strip=True)) if likes_span else None
          ...
          yield {"board_id": board_id, "topic_id": topic_id, "post_id": post_id,
                 "position": offset + idx + 1, ..., "likes": likes, "page_url": page_url}
  \<close>
  \<open>extract_post\<close> is the loop body for the wrapper at index \<open>idx\<close>; \<open>Inr None\<close> is
  \<^verbatim>\<open>continue\<close>. The two selectors built from the post id are refused by the selector
  library when they are not well formed, and \<^verbatim>\<open>parse_int\<close> may raise; the other
  selectors are constants.
\<close>

definition extract_post :: "stdlib \<Rightarrow> string \<Rightarrow> string \<Rightarrow> int \<Rightarrow> string \<Rightarrow> nat \<Rightarrow> 'd wrapper \<Rightarrow> error + 'd post option" where
  "extract_post lib board topic offset page_url idx wrapper =
     (case content_id wrapper of
        None \<Rightarrow> Inr None
      | Some post_id_attr \<Rightarrow>
          if take 4 post_id_attr \<noteq> ''msg_'' then Inr None
          else (let post_id = str_replace ''msg_'' [] post_id_attr;
                    extra_info = ''ul#msg_'' @ post_id @ ''_extra_info'';
                    subject_el = ''h5#subject_'' @ post_id @ '' a''
                in if \<not> css_ok lib extra_info then Inl (SelectorSyntaxError extra_info)
                   else if \<not> css_ok lib subject_el then Inl (SelectorSyntaxError subject_el)
                   else (case (case likes_text wrapper of
                                 None \<Rightarrow> Inr None
                               | Some t \<Rightarrow> parse_int (interpreter lib) (Some t)) of
                           Inl e \<Rightarrow> Inl e
                         | Inr likes \<Rightarrow>
                             Inr (Some \<lparr>p_board_id = board, p_topic_id = topic,
                                        p_post_id = post_id,
                                        p_position = offset + int idx + 1,
                                        p_likes = likes,
                                        p_details = details wrapper post_id,
                                        p_page_url = page_url\<rparr>))))"

text \<open>
  The loop of \<^verbatim>\<open>_extract_posts\<close> from index \<open>idx\<close> on: the posts yielded, and the exception
  that ended the loop, if any.
\<close>

fun extract_posts_from :: "stdlib \<Rightarrow> string \<Rightarrow> string \<Rightarrow> int \<Rightarrow> string \<Rightarrow> nat \<Rightarrow> 'd wrapper list \<Rightarrow> 'd post list \<times> error option" where
  "extract_posts_from lib board topic offset page_url idx [] = ([], None)"
| "extract_posts_from lib board topic offset page_url idx (wrapper # rest) =
     (case extract_post lib board topic offset page_url idx wrapper of
        Inl e \<Rightarrow> ([], Some e)
      | Inr None \<Rightarrow> extract_posts_from lib board topic offset page_url (Suc idx) rest
      | Inr (Some post) \<Rightarrow>
          (case extract_posts_from lib board topic offset page_url (Suc idx) rest of
             (posts, err) \<Rightarrow> (post # posts, err)))"

definition extract_posts :: "stdlib \<Rightarrow> 'd topic_page \<Rightarrow> string \<Rightarrow> string \<Rightarrow> int \<Rightarrow> string \<Rightarrow> 'd post list \<times> error option" where
  "extract_posts lib soup board topic offset page_url =
     extract_posts_from lib board topic offset page_url 0 (wrappers soup)"

text \<open>
  The wrappers for which the loop body gets past the two \<^verbatim>\<open>continue\<close>s, and those among
  them for which it raises before it reaches \<^verbatim>\<open>yield\<close>.
\<close>

definition is_post_wrapper :: "'d wrapper \<Rightarrow> bool" where
  "is_post_wrapper wrapper =
     (case content_id wrapper of None \<Rightarrow> False | Some a \<Rightarrow> take 4 a = ''msg_'')"

definition post_raises :: "stdlib \<Rightarrow> 'd wrapper \<Rightarrow> bool" where
  "post_raises lib wrapper =
     (case content_id wrapper of
        None \<Rightarrow> False
      | Some a \<Rightarrow>
          take 4 a = ''msg_'' \<and>
          (let post_id = str_replace ''msg_'' [] a
           in \<not> css_ok lib (''ul#msg_'' @ post_id @ ''_extra_info'')
              \<or> \<not> css_ok lib (''h5#subject_'' @ post_id @ '' a'')
              \<or> (case likes_text wrapper of
                    None \<Rightarrow> False
                  | Some t \<Rightarrow> isl (parse_int (interpreter lib) (Some t)))))"

text \<open>
  \<^verbatim>\<open>parse_topic\<close> reads \<^verbatim>\<open>response.meta["topic_id"]\<close> and \<^verbatim>\<open>response.meta["board_id"]\<close>,
  which raise \<^verbatim>\<open>KeyError\<close> when the key is missing. The result is what was yielded and
  the exception that ended the call, if any.
\<close>

definition meta_str :: "meta \<Rightarrow> string \<Rightarrow> error + string" where
  "meta_str m key = (case m key of Some (StrV s) \<Rightarrow> Inr s | _ \<Rightarrow> Inl (KeyError key))"

definition parse_topic :: "stdlib \<Rightarrow> string \<Rightarrow> spider \<Rightarrow> 'd topic_page response \<Rightarrow> 'd yielded list \<times> error option" where
  "parse_topic lib uuid self response =
     (if status response \<in> {403, 520}
      then ((case retry_with_new_context self uuid response of
               None \<Rightarrow> []
             | Some retry_request \<Rightarrow> [Request retry_request]),
            None)
      else (case meta_str (resp_meta response) ''topic_id'' of
              Inl e \<Rightarrow> ([], Some e)
            | Inr topic_id \<Rightarrow>
          (case meta_str (resp_meta response) ''board_id'' of
              Inl e \<Rightarrow> ([], Some e)
            | Inr board \<Rightarrow>
          (let offset = meta_get_int (resp_meta response) ''topic_offset'' 0;
               soup = page response
           in case extract_posts lib soup board topic_id offset (resp_url response) of
                (posts, Some e) \<Rightarrow> (map (\<lambda>p. Item (PostItem p)) posts, Some e)
              | (posts, None) \<Rightarrow>
          (let out = map (\<lambda>p. Item (PostItem p)) posts;
               pages_seen = meta_get_int (resp_meta response) ''pages_seen'' 0 + 1
           in if (case topic_max_pages self of
                    None \<Rightarrow> False
                  | Some m \<Rightarrow> m \<noteq> 0 \<and> pages_seen \<ge> m)
              then (out, None)
              else (let offsets = collect_offsets (parse_query lib) (topic_page_links soup)
                                    ''topic'' topic_id
                    in case next_offset offsets offset of
                         None \<Rightarrow> (out, None)
                       | Some next_off \<Rightarrow>
                           (case scrapy_request lib
                                   (''https://forums.dansdeals.com/index.php?'' @
                                      urlencode lib [(''topic'',
                                        topic_id @ ''.'' @ str_of_int lib next_off)])
                                   ParseTopic
                                   (build_meta self []
                                      [''board_id'' \<mapsto> StrV board,
                                       ''topic_id'' \<mapsto> StrV topic_id,
                                       ''topic_offset'' \<mapsto> IntV next_off,
                                       ''pages_seen'' \<mapsto> IntV pages_seen,
                                       ''cf_retry'' \<mapsto> IntV 0] False) of
                              Inl e \<Rightarrow> (out, Some e)
                            | Inr r \<Rightarrow> (out @ [Request r], None))))))))"

subsection \<open>A run over board pages\<close>

text \<open>
  The board pages of a run reach \<^verbatim>\<open>parse_board\<close> one after the other: the request for
  the next board page is the last thing a call yields. \<open>run_board_pages\<close> threads the
  spider through the calls and collects what they yield; \<open>uuids i\<close> is the context name
  available to the \<open>i\<close>-th call. An exception that ends a call is logged by the crawler
  and the run goes on with what the call had yielded and the spider as the call left it.
\<close>

fun run_board_pages :: "stdlib \<Rightarrow> (nat \<Rightarrow> string) \<Rightarrow> spider \<Rightarrow> board_page response list \<Rightarrow> spider \<times> 'd yielded list" where
  "run_board_pages lib uuids self [] = (self, [])"
| "run_board_pages lib uuids self (response # responses) =
     (case parse_board lib (uuids 0) self response of
        (self1, out1, err) \<Rightarrow>
          (case run_board_pages lib (\<lambda>i. uuids (Suc i)) self1 responses of
             (self2, out2) \<Rightarrow> (self2, out1 @ out2)))"

text \<open>The topic ids for which a list of yielded values schedules a topic traversal, the
  topic summaries that it emits, and their ids.\<close>

fun scheduled_topic_ids :: "'d yielded list \<Rightarrow> string list" where
  "scheduled_topic_ids [] = []"
| "scheduled_topic_ids (Request r # out) =
     (if callback r = ParseTopic
      then (case req_meta r ''topic_id'' of
              Some (StrV t) \<Rightarrow> t # scheduled_topic_ids out
            | _ \<Rightarrow> scheduled_topic_ids out)
      else scheduled_topic_ids out)"
| "scheduled_topic_ids (Item i # out) = scheduled_topic_ids out"

fun yielded_summaries :: "'d yielded list \<Rightarrow> topic_summary list" where
  "yielded_summaries [] = []"
| "yielded_summaries (Item (TopicSummaryItem t) # out) = t # yielded_summaries out"
| "yielded_summaries (x # out) = yielded_summaries out"

definition summary_topic_ids :: "'d yielded list \<Rightarrow> string list" where
  "summary_topic_ids out = map t_topic_id (yielded_summaries out)"

text \<open>
  What one or several calls of \<^verbatim>\<open>parse_board\<close> do to the dedup set, from the spider
  before to the spider after, with the values yielded in between: the ids of the
  emitted summaries are new, pairwise different and appended to the set, and when post
  fetching is enabled a topic traversal is scheduled for exactly those of them whose
  topic link \<^verbatim>\<open>scrapy.Request\<close> accepts.
\<close>

definition dedup_step :: "stdlib \<Rightarrow> spider \<Rightarrow> spider \<Rightarrow> 'd yielded list \<Rightarrow> bool" where
  "dedup_step lib self self' out \<longleftrightarrow>
     topic_seen self' = topic_seen self @ summary_topic_ids out
     \<and> distinct (summary_topic_ids out)
     \<and> set (summary_topic_ids out) \<inter> set (topic_seen self) = {}
     \<and> scheduled_topic_ids out =
         (if fetch_posts self
          then map t_topic_id [t \<leftarrow> yielded_summaries out. request_url_ok lib (t_topic_url t)]
          else [])
     \<and> fetch_posts self' = fetch_posts self"
subsection \<open>The session artifact\<close>

text \<open>
  The storage state of a browsing context: its cookies and its origins. \<^verbatim>\<open>{}\<close>, which
  both bootstrap procedures return when they give up, is \<open>None\<close> below.
\<close>

record ('c, 'o) browser_state =
  cookies :: "'c list"
  origins :: "'o list"

text \<open>
  The attributes of the spider that \<^verbatim>\<open>_ensure_storage_state\<close> reads besides \<^verbatim>\<open>cf_mode\<close>.
\<close>

record session_spider = spider +
  bootstrap_mode :: string
  storage_state_ttl :: int
  data_dir :: "string option"

text \<open>
  The operations on the file system that the session code performs through \<^verbatim>\<open>pathlib\<close>,
  and \<^verbatim>\<open>replace\<close>, which an atomic save would use. \<open>run_op\<close> gives the successive
  contents of the file system while an operation runs, the last one being the result:
  \<^verbatim>\<open>write_text\<close> opens the file for writing, which truncates it, and then writes the
  text; \<^verbatim>\<open>replace\<close> installs a file under its new name in one step.
\<close>

datatype fs_op =
    Mkdir string
  | WriteText string string
  | Replace string string

type_synonym files = "string \<rightharpoonup> string"

fun run_op :: "fs_op \<Rightarrow> files \<Rightarrow> files list" where
  "run_op (Mkdir d) fs = [fs]"
| "run_op (WriteText p s) fs = [fs(p \<mapsto> []), fs(p \<mapsto> s)]"
| "run_op (Replace a b) fs = [fs(b := fs a, a := None)]"

fun visible_states :: "fs_op list \<Rightarrow> files \<Rightarrow> files list" where
  "visible_states [] fs = []"
| "visible_states (x # ops) fs = run_op x fs @ visible_states ops (last (run_op x fs))"

text \<open>
  \<^verbatim>\<open>_manual_playwright_bootstrap\<close> drives a browser and prompts the operator until the
  forum answers with 200 or the operator types SKIP. What it does to the file system
  depends only on how that dialogue ends: on SKIP it returns \<^verbatim>\<open>{}\<close>; otherwise
  \<^verbatim>\<open>
  state = context.storage_state()
  storage_path.write_text(json.dumps(state, indent=2), encoding="utf-8")
  return state
  \<close>
  \<^verbatim>\<open>json.dumps(state, indent=2)\<close> is the parameter \<open>dumps\<close>.
\<close>

definition manual_playwright_bootstrap ::
  "(('c, 'o) browser_state \<Rightarrow> string) \<Rightarrow> string \<Rightarrow> ('c, 'o) browser_state option
     \<Rightarrow> fs_op list \<times> ('c, 'o) browser_state option" where
  "manual_playwright_bootstrap dumps storage_path outcome =
     (case outcome of
        None \<Rightarrow> ([], None)
      | Some state \<Rightarrow> ([WriteText storage_path (dumps state)], Some state))"

text \<open>
  \<^verbatim>\<open>
  def _ensure_storage_state(self):
      base_dir = self.data_dir or (Path(__file__).resolve().parent.parent / "output")
      base_dir.mkdir(parents=True, exist_ok=True)
      storage_path = base_dir / "playwright_state.json"
      self.storage_state_path = storage_path
      if storage_path.exists():
          age = time.time() - storage_path.stat().st_mtime
          if age < self.storage_state_ttl:
              return
      if self.cf_mode == "manual":
          state = self._manual_playwright_bootstrap(storage_path)
      else:
          if self.bootstrap_mode == "skip":
              return
          state = self._auto_bootstrap()
      if not state or not state.get("cookies"):
          return
      storage_path.write_text(json.dumps(state, indent=2), encoding="utf-8")
  \<close>
  \<open>default_dir\<close> is the \<^verbatim>\<open>output\<close> directory next to the package; \<open>file_age\<close> is \<open>None\<close>
  when the file does not exist and its age in seconds otherwise; \<open>manual_outcome\<close> and
  \<open>auto_outcome\<close> are what the two bootstrap procedures return. The result is the list
  of file operations performed and the new \<^verbatim>\<open>self.storage_state_path\<close>.
\<close>

definition ensure_storage_state ::
  "(('c, 'o) browser_state \<Rightarrow> string) \<Rightarrow> string \<Rightarrow> session_spider \<Rightarrow> int option
     \<Rightarrow> ('c, 'o) browser_state option \<Rightarrow> ('c, 'o) browser_state option
     \<Rightarrow> fs_op list \<times> string" where
  "ensure_storage_state dumps default_dir self file_age manual_outcome auto_outcome =
     (let base_dir = (case data_dir self of Some d \<Rightarrow> d | None \<Rightarrow> default_dir);
          storage_path = base_dir @ ''/playwright_state.json'';
          ops = [Mkdir base_dir]
      in if (case file_age of None \<Rightarrow> False | Some age \<Rightarrow> age < storage_state_ttl self)
         then (ops, storage_path)
         else if cf_mode self \<noteq> Manual \<and> bootstrap_mode self = ''skip''
         then (ops, storage_path)
         else (let (ops_bootstrap, state) =
                     (if cf_mode self = Manual
                      then manual_playwright_bootstrap dumps storage_path manual_outcome
                      else ([], auto_outcome))
               in case state of
                    None \<Rightarrow> (ops @ ops_bootstrap, storage_path)
                  | Some st \<Rightarrow>
                      if cookies st = [] then (ops @ ops_bootstrap, storage_path)
                      else (ops @ ops_bootstrap @ [WriteText storage_path (dumps st)],
                            storage_path)))"

text \<open>The directory and the session-state path that \<^verbatim>\<open>_ensure_storage_state\<close> computes.\<close>

definition base_dir_of :: "string \<Rightarrow> session_spider \<Rightarrow> string" where
  "base_dir_of default_dir self = (case data_dir self of Some d \<Rightarrow> d | None \<Rightarrow> default_dir)"

definition storage_path_of :: "string \<Rightarrow> session_spider \<Rightarrow> string" where
  "storage_path_of default_dir self = base_dir_of default_dir self @ ''/playwright_state.json''"

definition is_fresh :: "session_spider \<Rightarrow> int option \<Rightarrow> bool" where
  "is_fresh self file_age =
     (case file_age of None \<Rightarrow> False | Some age \<Rightarrow> age < storage_state_ttl self)"

text \<open>
  A save of \<open>new\<close> at \<open>path\<close> is atomic for readers when every content of \<open>path\<close> that
  can be observed while the operations run is the content before them or \<open>new\<close>.
\<close>

definition atomic_for_readers :: "fs_op list \<Rightarrow> files \<Rightarrow> string \<Rightarrow> string \<Rightarrow> bool" where
  "atomic_for_readers ops fs path new \<longleftrightarrow>
     list_all (\<lambda>fs'. fs' path = fs path \<or> fs' path = Some new) (visible_states ops fs)"

section \<open>The storage pipeline (\<^verbatim>\<open>dansscrap/pipelines.py\<close>)\<close>

subsection \<open>Dictionaries in insertion order\<close>




subsection \<open>Buffered records and files\<close>












text \<open>
  A dict whose values carry their own key, as the buffers do: the payload stored under a
  topic id is one with that \<^verbatim>\<open>topic_id\<close>, the payload under a post id one with that
  \<^verbatim>\<open>post_id\<close>. \<open>well_keyed\<close> says so for all buffers of a pipeline.
\<close>

definition keyed_dict :: "('v \<Rightarrow> 'k) \<Rightarrow> ('k \<times> 'v) list \<Rightarrow> bool" where
  "keyed_dict key d \<longleftrightarrow> distinct (map fst d) \<and> list_all (\<lambda>(k, v). key v = k) d"



subsection \<open>The flush\<close>



text \<open>
  The body of the second loop of \<^verbatim>\<open>close_spider\<close>, for one board:
  \<^verbatim>\<open>
  existing = self._load_json(index_file, default={})
  stored_topics = {t["topic_id"]: t for t in existing.get("topics", [])} if existing else {}
  stored_topics.update(topics)
  payload = {"board_id": board_id, "collected_at": iso_now(),
             "topics": sorted(stored_topics.values(),
                              key=lambda t: (t.get("board_offset", 0), t["topic_id"]))}
  if board_id in self.board_info:
      payload["board_name"] = self.board_info[board_id].get("name")
  self._write_json(index_file, payload)
  \<close>
\<close>









subsection \<open>Outputs up to timestamps\<close>









subsection \<open>Example inputs\<close>

text \<open>
  A small forum used to run the callbacks on concrete pages: a query-string parser that
  knows three links, a selector check that accepts the selectors made of lower-case
  names joined by \<^verbatim>\<open>#\<close> and spaces, a request constructor that accepts the forum's index
  URLs with a plain query (they need no escaping), an interpreter with the ASCII digits
  and the default limit, a spider for board 8 in automatic mode, topic rows given by their link, and
  board responses given by their offset, their rows and their pagination links.
\<close>

definition example_url :: "string \<Rightarrow> string" where
  "example_url q = ''https://forums.dansdeals.com/index.php?'' @ q"

fun simple_selector :: "bool \<Rightarrow> string \<Rightarrow> bool" where
  "simple_selector start [] = (\<not> start)"
| "simple_selector start (c # cs) =
     (if start then c \<in> set ''abcdefghijklmnopqrstuvwxyz'' \<and> simple_selector False cs
      else if c = CHR ''#'' \<or> c = CHR '' '' then simple_selector True cs
      else c \<in> set ''abcdefghijklmnopqrstuvwxyz0123456789_'' \<and> simple_selector False cs)"

definition example_lib :: stdlib where
  "example_lib =
     \<lparr>parse_query = (\<lambda>u. if u = example_url ''topic=101.0''
                           then [''topic'' \<mapsto> (''101.0'', [])]
                         else if u = example_url ''topic=102.0''
                           then [''topic'' \<mapsto> (''102.0'', [])]
                         else if u = example_url ''board=8.25''
                           then [''board'' \<mapsto> (''8.25'', [])]
                         else Map.empty),
      urlencode = (\<lambda>ps. concat (map (\<lambda>(k, v). k @ ''='' @ v) ps)),
      str_of_int = (\<lambda>n. if n = 25 then ''25'' else ''0''),
      css_ok = simple_selector True,
      request_url = (\<lambda>u. if take (length (example_url [])) u = example_url [] \<and>
                              list_all (\<lambda>c. c \<in> set ''abcdefghijklmnopqrstuvwxyz0123456789=.'')
                                (drop (length (example_url [])) u)
                           then Inr u else Inl ValueError),
      interpreter = example_python\<rparr>"

definition example_spider :: spider where
  "example_spider =
     \<lparr>cf_mode = Auto, board_id = ''8'', fetch_posts = True, max_board_pages = None,
      max_topics = None, topic_max_pages = None, storage_state_file = None,
      board_pages_processed = 0, topic_seen = [], board_metadata_emitted = False\<rparr>"

definition example_row :: "string \<Rightarrow> topic_row" where
  "example_row u =
     \<lparr>row_subject_link = Some (Some u, ''subject''), row_starter = ''starter'',
      row_stats_text = code_points ''3 Replies 1,204 Views'', row_last_post_author = None,
      row_last_post_time = None, row_last_post_link = None\<rparr>"

definition example_board_response :: "int \<Rightarrow> string list \<Rightarrow> string option list \<Rightarrow> board_page response" where
  "example_board_response offset rows links =
     \<lparr>status = 200, resp_url = ''https://forums.dansdeals.com/index.php'',
      resp_meta = [''board_offset'' \<mapsto> IntV offset],
      resp_request = \<lparr>url = ''https://forums.dansdeals.com/index.php'', callback = ParseBoard,
                      req_meta = [''board_offset'' \<mapsto> IntV offset], dont_filter = False\<rparr>,
      page = \<lparr>nav_title = None, head_title = None, description = None, stats_text = [],
               topic_rows = map example_row rows, board_page_links = links\<rparr>\<rparr>"


text \<open>A topic page given by the \<^verbatim>\<open>id\<close> attributes of its wrappers' content elements.\<close>

definition example_topic_page :: "string option list \<Rightarrow> unit topic_page" where
  "example_topic_page ids =
     \<lparr>wrappers = map (\<lambda>a. \<lparr>content_id = a, likes_text = None, details = (\<lambda>post_id. ())\<rparr>) ids,
      topic_page_links = []\<rparr>"

text \<open>
  A spider in automatic mode writing below \<^verbatim>\<open>data\<close>, a captured state with one cookie,
  and a serialiser.
\<close>

definition example_session_spider :: session_spider where
  "example_session_spider =
     \<lparr>cf_mode = Auto, board_id = ''8'', fetch_posts = True, max_board_pages = None,
      max_topics = None, topic_max_pages = None, storage_state_file = None,
      board_pages_processed = 0, topic_seen = [], board_metadata_emitted = False,
      bootstrap_mode = ''auto'', storage_state_ttl = 43200, data_dir = Some ''data''\<rparr>"

definition example_state :: "(string, string) browser_state" where
  "example_state = \<lparr>cookies = [''cf_clearance''], origins = [''https://forums.dansdeals.com'']\<rparr>"

definition example_dumps :: "(string, string) browser_state \<Rightarrow> string" where
  "example_dumps st = ''{cookies: '' @ concat (cookies st) @ ''}''"






section \<open>Properties of the offset frontier\<close>

lemma next_offset_Some_iff:
  "next_offset offsets c = Some m \<longleftrightarrow>
     m \<in> set offsets \<and> c < m \<and> (\<forall>v \<in> set offsets. c < v \<longrightarrow> m \<le> v)"
proof -
  let ?cand = "[v \<leftarrow> offsets. v > c]"
  show ?thesis
  proof (cases "?cand = []")
    case True
    then have "\<forall>v \<in> set offsets. \<not> c < v"
      by (simp add: filter_empty_conv)
    with True show ?thesis
      by (auto simp: next_offset_def)
  next
    case False
    then have mn: "min_list ?cand = Min (set ?cand)"
      by (rule min_list_Min)
    from False have ne: "set ?cand \<noteq> {}"
      by (auto simp: filter_empty_conv)
    have "Min (set ?cand) = m \<longleftrightarrow> m \<in> set ?cand \<and> (\<forall>v \<in> set ?cand. m \<le> v)"
      using ne by (auto simp: Min_eq_iff)
    with False mn show ?thesis
      by (auto simp: next_offset_def)
  qed
qed

lemma next_offset_None_iff:
  "next_offset offsets c = None \<longleftrightarrow> (\<forall>v \<in> set offsets. v \<le> c)"
  by (auto simp: next_offset_def filter_empty_conv not_less)

text \<open>
  Claim C1. For every set of discovered offsets and every current offset,
  \<open>next_offset\<close> returns the least discovered offset strictly greater than the current
  one, and returns none exactly when no discovered offset is greater.
\<close>

theorem next_offset_least_greater:
  "(next_offset offsets c = Some m \<longleftrightarrow>
      m \<in> set offsets \<and> c < m \<and> (\<forall>v \<in> set offsets. c < v \<longrightarrow> m \<le> v))
   \<and> (next_offset offsets c = None \<longleftrightarrow> (\<forall>v \<in> set offsets. v \<le> c))
   \<and> (next_offset offsets c =
        (if \<exists>v \<in> set offsets. c < v then Some (Min {v \<in> set offsets. c < v}) else None))"
proof -
  have "next_offset offsets c =
        (if \<exists>v \<in> set offsets. c < v then Some (Min {v \<in> set offsets. c < v}) else None)"
  proof (cases "\<exists>v \<in> set offsets. c < v")
    case True
    then have "[v \<leftarrow> offsets. v > c] \<noteq> []"
      by (auto simp: filter_empty_conv)
    then show ?thesis
      using True by (simp add: next_offset_def min_list_Min)
  next
    case False
    then show ?thesis
      using next_offset_None_iff [of offsets c] by (auto simp: not_less)
  qed
  then show ?thesis
    using next_offset_Some_iff [of offsets c m] next_offset_None_iff [of offsets c]
    by blast
qed

theorem next_offset_least_greater_witness:
  "next_offset [50, 0, 75, 25] 25 = Some 50 \<and> next_offset [50, 0, 75, 25] 75 = None"
  using next_offset_least_greater [of "[50, 0, 75, 25]" 25 50]
    next_offset_least_greater [of "[50, 0, 75, 25]" 75 0]
  by simp

section \<open>Properties of the spider\<close>

subsection \<open>The retry ceiling\<close>

lemma retry_None_iff:
  "retry_with_new_context self uuid response = None \<longleftrightarrow>
     cf_mode self = Manual \<or> cf_max_retries \<le> meta_get_int (resp_meta response) ''cf_retry'' 0"
  by (simp add: retry_with_new_context_def Let_def)

lemma retry_Some_request:
  assumes "cf_mode self \<noteq> Manual"
    and "meta_get_int (resp_meta response) ''cf_retry'' 0 < cf_max_retries"
  shows "retry_with_new_context self uuid response =
           Some ((resp_request response)
             \<lparr>req_meta := build_meta self uuid
                 ((resp_meta response |`
                     {''board_offset'', ''topic_offset'', ''board_id'', ''topic_id''})
                  (''cf_retry'' \<mapsto> IntV (meta_get_int (resp_meta response) ''cf_retry'' 0 + 1)))
                 True,
              dont_filter := True\<rparr>)"
  using assms by (simp add: retry_with_new_context_def Let_def)

lemma build_meta_cf_retry:
  "build_meta self uuid (extra(''cf_retry'' \<mapsto> v)) nc ''cf_retry'' = Some v"
  by (simp add: build_meta_def Let_def)

lemma build_meta_context:
  "extra ''playwright_context'' = None \<Longrightarrow>
     build_meta self uuid extra True ''playwright_context'' = Some (StrV (''context-'' @ uuid))"
  by (simp add: build_meta_def Let_def map_add_def)

lemma build_meta_extra:
  "extra k = Some v \<Longrightarrow> build_meta self uuid extra nc k = Some v"
  by (simp add: build_meta_def Let_def map_add_def)

lemma retry_Some_props:
  assumes "retry_with_new_context self uuid response = Some request"
  shows "cf_mode self \<noteq> Manual"
    and "meta_get_int (resp_meta response) ''cf_retry'' 0 < cf_max_retries"
    and "meta_get_int (req_meta request) ''cf_retry'' 0 =
           meta_get_int (resp_meta response) ''cf_retry'' 0 + 1"
    and "req_meta request ''playwright_context'' = Some (StrV (''context-'' @ uuid))"
    and "dont_filter request"
    and "url request = url (resp_request response)"
    and "callback request = callback (resp_request response)"
proof -
  from assms show m: "cf_mode self \<noteq> Manual"
    and n: "meta_get_int (resp_meta response) ''cf_retry'' 0 < cf_max_retries"
    using retry_None_iff [of self uuid response] by auto
  note r = retry_Some_request [OF m n, of uuid]
  from assms r show "meta_get_int (req_meta request) ''cf_retry'' 0 =
           meta_get_int (resp_meta response) ''cf_retry'' 0 + 1"
    by (auto simp: build_meta_cf_retry meta_get_int_def)
  from assms r show "req_meta request ''playwright_context'' = Some (StrV (''context-'' @ uuid))"
    by (auto simp: build_meta_context restrict_map_def)
  from assms r show "dont_filter request" "url request = url (resp_request response)"
    "callback request = callback (resp_request response)"
    by auto
qed

lemma challenged_again_meta [simp]:
  "resp_meta (challenged_again response request) = req_meta request"
  by (simp add: challenged_again_def)

lemma challenged_retries_unfold:
  "challenged_retries self uuids response =
     (case retry_with_new_context self (uuids 0) response of
        None \<Rightarrow> []
      | Some request \<Rightarrow>
          request # challenged_retries self (\<lambda>i. uuids (Suc i)) (challenged_again response request))"
  by (rule challenged_retries.simps)

lemma length_challenged_retries:
  "length (challenged_retries self uuids response) =
     (if cf_mode self = Manual then 0
      else nat (cf_max_retries - meta_get_int (resp_meta response) ''cf_retry'' 0))"
proof (induction self uuids response rule: challenged_retries.induct)
  case (1 self uuids response)
  show ?case
  proof (cases "retry_with_new_context self (uuids 0) response")
    case None
    then show ?thesis
      using retry_None_iff [of self "uuids 0" response]
      by (auto simp: challenged_retries_unfold [of self uuids response])
  next
    case (Some request)
    note p = retry_Some_props [OF Some]
    from "1.IH" [OF Some] p(1,3)
    have "length (challenged_retries self (\<lambda>i. uuids (Suc i)) (challenged_again response request))
          = nat (cf_max_retries - (meta_get_int (resp_meta response) ''cf_retry'' 0 + 1))"
      by simp
    with Some p(1,2) show ?thesis
      by (simp add: challenged_retries_unfold [of self uuids response])
  qed
qed

lemma challenged_retries_exhausted:
  "request \<in> set (challenged_retries self uuids response) \<Longrightarrow>
     meta_get_int (req_meta request) ''cf_retry'' 0 \<le> cf_max_retries"
proof (induction self uuids response rule: challenged_retries.induct)
  case (1 self uuids response)
  show ?case
  proof (cases "retry_with_new_context self (uuids 0) response")
    case None
    then have "challenged_retries self uuids response = []"
      by (simp add: challenged_retries_unfold [of self uuids response])
    with "1.prems" show ?thesis by simp
  next
    case (Some first)
    note p = retry_Some_props [OF Some]
    let ?rest = "challenged_retries self (\<lambda>i. uuids (Suc i)) (challenged_again response first)"
    have "challenged_retries self uuids response = first # ?rest"
      using Some by (simp add: challenged_retries_unfold [of self uuids response])
    with "1.prems" have "request = first \<or> request \<in> set ?rest"
      by simp
    then show ?thesis
    proof
      assume "request = first"
      with p(2,3) show ?thesis by simp
    next
      assume "request \<in> set ?rest"
      with "1.IH" [OF Some] show ?thesis by simp
    qed
  qed
qed

lemma challenged_retries_last:
  "challenged_retries self uuids response \<noteq> [] \<Longrightarrow>
     retry_with_new_context self uuid
       (challenged_again response (last (challenged_retries self uuids response))) = None"
proof (induction self uuids response rule: challenged_retries.induct)
  case (1 self uuids response)
  show ?case
  proof (cases "retry_with_new_context self (uuids 0) response")
    case None
    then have "challenged_retries self uuids response = []"
      by (simp add: challenged_retries_unfold [of self uuids response])
    with "1.prems" show ?thesis by simp
  next
    case (Some first)
    let ?rest = "challenged_retries self (\<lambda>i. uuids (Suc i)) (challenged_again response first)"
    have unfold: "challenged_retries self uuids response = first # ?rest"
      using Some by (simp add: challenged_retries_unfold [of self uuids response])
    show ?thesis
    proof (cases "?rest = []")
      case True
      then have "retry_with_new_context self (uuids (Suc 0)) (challenged_again response first) = None"
        using challenged_retries_unfold [of self "\<lambda>i. uuids (Suc i)" "challenged_again response first"]
        by (simp split: option.splits)
      then have "retry_with_new_context self uuid (challenged_again response first) = None"
        by (simp add: retry_None_iff)
      with True unfold show ?thesis by simp
    next
      case False
      from "1.IH" [OF Some False]
      have "retry_with_new_context self uuid
              (challenged_again (challenged_again response first) (last ?rest)) = None" .
      moreover have "challenged_again (challenged_again response first) (last ?rest)
                     = challenged_again response (last ?rest)"
        by (simp add: challenged_again_def)
      ultimately show ?thesis
        using False unfold by simp
    qed
  qed
qed


text \<open>
  Claim C2. The retry ceiling is 3. The retry controller returns no request once the
  retry counter has reached the ceiling, and none at all in manual mode; below the
  ceiling, in automatic mode, it reissues the request with the counter increased by one
  and a new browsing context. For a page that answers every attempt with a challenge
  status, starting from a request with counter 0, exactly three retries are issued in
  automatic mode and none in manual mode, no retry carries a counter above 3, and the
  challenged answer to the last retry yields no further request. Both callbacks hand a
  response with status 403 or 520 to the retry controller and yield nothing else.
\<close>

theorem challenge_retry_ceiling:
  "cf_max_retries = 3
   \<and> (cf_max_retries \<le> meta_get_int (resp_meta response) ''cf_retry'' 0
        \<longrightarrow> retry_with_new_context self uuid response = None)
   \<and> (cf_mode self = Manual \<longrightarrow> retry_with_new_context self uuid response = None)
   \<and> (cf_mode self \<noteq> Manual \<and> meta_get_int (resp_meta response) ''cf_retry'' 0 < cf_max_retries
        \<longrightarrow> (\<exists>request. retry_with_new_context self uuid response = Some request
              \<and> meta_get_int (req_meta request) ''cf_retry'' 0 =
                  meta_get_int (resp_meta response) ''cf_retry'' 0 + 1
              \<and> req_meta request ''playwright_context'' = Some (StrV (''context-'' @ uuid))
              \<and> dont_filter request
              \<and> url request = url (resp_request response)
              \<and> callback request = callback (resp_request response)))
   \<and> (meta_get_int (resp_meta response) ''cf_retry'' 0 = 0
        \<longrightarrow> length (challenged_retries self uuids response) =
            (if cf_mode self = Manual then 0 else 3))
   \<and> (0 \<le> meta_get_int (resp_meta response) ''cf_retry'' 0
        \<longrightarrow> length (challenged_retries self uuids response) \<le> 3)
   \<and> (\<forall>request \<in> set (challenged_retries self uuids response).
         meta_get_int (req_meta request) ''cf_retry'' 0 \<le> 3)
   \<and> (challenged_retries self uuids response \<noteq> []
        \<longrightarrow> retry_with_new_context self uuid
              (challenged_again response (last (challenged_retries self uuids response))) = None)
   \<and> (status board_response \<in> {403, 520}
        \<longrightarrow> parse_board lib uuid self board_response =
            (self,
             (case retry_with_new_context self uuid board_response of
                None \<Rightarrow> [] | Some retry_request \<Rightarrow> [Request retry_request]),
             None))
   \<and> (status topic_response \<in> {403, 520}
        \<longrightarrow> parse_topic lib uuid self topic_response =
            ((case retry_with_new_context self uuid topic_response of
                None \<Rightarrow> [] | Some retry_request \<Rightarrow> [Request retry_request]),
             None))"
proof (intro conjI impI ballI)
  show "cf_max_retries = 3"
    by (simp add: cf_max_retries_def)
  show "retry_with_new_context self uuid response = None"
    if "cf_max_retries \<le> meta_get_int (resp_meta response) ''cf_retry'' 0"
    using that by (simp add: retry_None_iff)
  show "retry_with_new_context self uuid response = None" if "cf_mode self = Manual"
    using that by (simp add: retry_None_iff)
  show "\<exists>request. retry_with_new_context self uuid response = Some request
              \<and> meta_get_int (req_meta request) ''cf_retry'' 0 =
                  meta_get_int (resp_meta response) ''cf_retry'' 0 + 1
              \<and> req_meta request ''playwright_context'' = Some (StrV (''context-'' @ uuid))
              \<and> dont_filter request
              \<and> url request = url (resp_request response)
              \<and> callback request = callback (resp_request response)"
    if "cf_mode self \<noteq> Manual
        \<and> meta_get_int (resp_meta response) ''cf_retry'' 0 < cf_max_retries"
  proof -
    from that have "retry_with_new_context self uuid response \<noteq> None"
      by (simp add: retry_None_iff)
    then obtain request where r: "retry_with_new_context self uuid response = Some request"
      by blast
    from retry_Some_props(3-7) [OF r] r show ?thesis
      by blast
  qed
  show "length (challenged_retries self uuids response) =
            (if cf_mode self = Manual then 0 else 3)"
    if "meta_get_int (resp_meta response) ''cf_retry'' 0 = 0"
    using that by (simp add: length_challenged_retries cf_max_retries_def)
  show "length (challenged_retries self uuids response) \<le> 3"
    if "0 \<le> meta_get_int (resp_meta response) ''cf_retry'' 0"
    using that by (auto simp: length_challenged_retries cf_max_retries_def)
  show "meta_get_int (req_meta request) ''cf_retry'' 0 \<le> 3"
    if "request \<in> set (challenged_retries self uuids response)" for request
    using challenged_retries_exhausted [OF that] by (simp add: cf_max_retries_def)
  show "retry_with_new_context self uuid
              (challenged_again response (last (challenged_retries self uuids response))) = None"
    if "challenged_retries self uuids response \<noteq> []"
    using that by (rule challenged_retries_last)
  show "parse_board lib uuid self board_response =
            (self,
             (case retry_with_new_context self uuid board_response of
                None \<Rightarrow> [] | Some retry_request \<Rightarrow> [Request retry_request]),
             None)"
    if "status board_response \<in> {403, 520}"
    using that by (simp add: parse_board_def)
  show "parse_topic lib uuid self topic_response =
            ((case retry_with_new_context self uuid topic_response of
                None \<Rightarrow> [] | Some retry_request \<Rightarrow> [Request retry_request]),
             None)"
    if "status topic_response \<in> {403, 520}"
    using that by (simp add: parse_topic_def)
qed


theorem challenge_retry_ceiling_witness:
  "(let self = \<lparr>cf_mode = Auto, board_id = ''8'', fetch_posts = True, max_board_pages = None,
                 max_topics = None, topic_max_pages = None, storage_state_file = None,
                 board_pages_processed = 0, topic_seen = [], board_metadata_emitted = False\<rparr>;
        request = \<lparr>url = ''https://forums.dansdeals.com/index.php?board=8.25'',
                    callback = ParseBoard,
                    req_meta = [''board_offset'' \<mapsto> IntV 25, ''cf_retry'' \<mapsto> IntV 0],
                    dont_filter = False\<rparr>;
        response = \<lparr>status = 403, resp_url = url request, resp_meta = req_meta request,
                     resp_request = request, page = ()\<rparr>
    in length (challenged_retries self (\<lambda>i. ''u'') response) = 3
       \<and> length (challenged_retries (self\<lparr>cf_mode := Manual\<rparr>) (\<lambda>i. ''u'') response) = 0
       \<and> retry_with_new_context self ''u''
            (response\<lparr>resp_meta := [''cf_retry'' \<mapsto> IntV 3]\<rparr>) = None)"
proof -
  define self where "self = \<lparr>cf_mode = Auto, board_id = ''8'', fetch_posts = True,
                 max_board_pages = None,
                 max_topics = None, topic_max_pages = None, storage_state_file = None,
                 board_pages_processed = 0, topic_seen = [], board_metadata_emitted = False\<rparr>"
  define request where "request = \<lparr>url = ''https://forums.dansdeals.com/index.php?board=8.25'',
                    callback = ParseBoard,
                    req_meta = [''board_offset'' \<mapsto> IntV 25, ''cf_retry'' \<mapsto> IntV 0],
                    dont_filter = False\<rparr>"
  define response :: "unit response" where "response = \<lparr>status = 403, resp_url = url request,
                     resp_meta = req_meta request, resp_request = request, page = ()\<rparr>"
  have fresh: "meta_get_int (resp_meta response) ''cf_retry'' 0 = 0"
    by (simp add: response_def request_def meta_get_int_def)
  have spent: "cf_max_retries \<le>
      meta_get_int (resp_meta (response\<lparr>resp_meta := [''cf_retry'' \<mapsto> IntV 3]\<rparr>)) ''cf_retry'' 0"
    by (simp add: meta_get_int_def cf_max_retries_def)
  have a: "cf_mode self = Auto" and m: "cf_mode (self\<lparr>cf_mode := Manual\<rparr>) = Manual"
    by (simp_all add: self_def)
  have "length (challenged_retries self (\<lambda>i. ''u'') response) =
          (if cf_mode self = Manual then 0 else 3)"
    using fresh by (rule challenge_retry_ceiling [THEN conjunct2, THEN conjunct2, THEN conjunct2,
          THEN conjunct2, THEN conjunct1, rule_format])
  with a have 1: "length (challenged_retries self (\<lambda>i. ''u'') response) = 3"
    by simp
  have "length (challenged_retries (self\<lparr>cf_mode := Manual\<rparr>) (\<lambda>i. ''u'') response) =
          (if cf_mode (self\<lparr>cf_mode := Manual\<rparr>) = Manual then 0 else 3)"
    using fresh by (rule challenge_retry_ceiling [THEN conjunct2, THEN conjunct2, THEN conjunct2,
          THEN conjunct2, THEN conjunct1, rule_format])
  with m have 2: "length (challenged_retries (self\<lparr>cf_mode := Manual\<rparr>) (\<lambda>i. ''u'') response) = 0"
    by simp
  have 3: "retry_with_new_context self ''u''
            (response\<lparr>resp_meta := [''cf_retry'' \<mapsto> IntV 3]\<rparr>) = None"
    using spent by (rule challenge_retry_ceiling [THEN conjunct2, THEN conjunct1, rule_format])
  from 1 2 3 show ?thesis
    unfolding self_def request_def response_def Let_def by blast
qed

subsection \<open>Topic deduplication\<close>

lemma scheduled_topic_ids_append:
  "scheduled_topic_ids (xs @ ys) = scheduled_topic_ids xs @ scheduled_topic_ids ys"
  by (induction xs rule: scheduled_topic_ids.induct) (simp_all split: option.splits meta_value.splits)

lemma yielded_summaries_append:
  "yielded_summaries (xs @ ys) = yielded_summaries xs @ yielded_summaries ys"
  by (induction xs rule: yielded_summaries.induct) simp_all

lemma summary_topic_ids_append:
  "summary_topic_ids (xs @ ys) = summary_topic_ids xs @ summary_topic_ids ys"
  by (simp add: summary_topic_ids_def yielded_summaries_append)

lemma schedule_topic_Inr:
  assumes "schedule_topic lib self topic_id u offset = Inr r"
  shows "scheduled_topic_ids (Request r # out) = topic_id # scheduled_topic_ids out"
    and "request_url_ok lib u"
  using assms
  by (auto simp: schedule_topic_def scrapy_request_def request_url_ok_def build_meta_def
                 Let_def map_add_def
           split: sum.splits)

lemma schedule_topic_Inl:
  assumes "schedule_topic lib self topic_id u offset = Inl e"
  shows "\<not> request_url_ok lib u"
  using assms
  by (auto simp: schedule_topic_def scrapy_request_def request_url_ok_def split: sum.splits)

lemma scrapy_request_callback:
  "scrapy_request lib u cb m = Inr r \<Longrightarrow> callback r = cb"
  by (auto simp: scrapy_request_def split: sum.splits)

lemma spider_same_seen: "\<exists>seen. (self :: spider) = self\<lparr>topic_seen := seen\<rparr>"
  by (rule exI [of _ "topic_seen self"]) simp

lemma dedup_step_refl: "dedup_step lib self self []"
  by (simp add: dedup_step_def summary_topic_ids_def)

lemma dedup_step_trans:
  assumes "dedup_step lib self self1 out1" and "dedup_step lib self1 self2 out2"
  shows "dedup_step lib self self2 (out1 @ out2)"
  using assms
  by (auto simp: dedup_step_def summary_topic_ids_append scheduled_topic_ids_append
                 yielded_summaries_append)

lemma dedup_step_fresh:
  assumes new: "t_topic_id topic \<notin> set (topic_seen self)"
    and sched: "scheduled_topic_ids pre =
                  (if fetch_posts self \<and> request_url_ok lib (t_topic_url topic)
                   then [t_topic_id topic] else [])"
    and pre: "yielded_summaries pre = [topic]"
    and rest: "dedup_step lib (self\<lparr>topic_seen := topic_seen self @ [t_topic_id topic]\<rparr>) self' out"
  shows "dedup_step lib self self' (pre @ out)"
proof -
  let ?self1 = "self\<lparr>topic_seen := topic_seen self @ [t_topic_id topic]\<rparr>"
  from new sched pre have "dedup_step lib self ?self1 pre"
    by (simp add: dedup_step_def summary_topic_ids_def)
  from dedup_step_trans [OF this rest] show ?thesis .
qed

lemma topics_loop_dedup_step:
  "topics_loop lib offset page_url self rows = (self', out :: 'd yielded list, err) \<Longrightarrow>
     dedup_step lib self self' out \<and> (\<exists>seen. self' = self\<lparr>topic_seen := seen\<rparr>)"
proof (induction rows arbitrary: self self' out err)
  case Nil
  then have "self' = self" "out = []"
    by simp_all
  with spider_same_seen [of self] show ?case by (simp add: dedup_step_refl)
next
  case (Cons row rows)
  show ?case
  proof (cases "extract_topic lib self offset page_url row")
    case (Inl e)
    with Cons.prems have "self' = self" "out = []"
      by simp_all
    with spider_same_seen [of self] show ?thesis by (simp add: dedup_step_refl)
  next
    case (Inr found)
    show ?thesis
    proof (cases found)
      case None
      with Inr Cons.prems have "topics_loop lib offset page_url self rows = (self', out, err)"
        by simp
      from Cons.IH [OF this] show ?thesis .
    next
      case (Some topic)
      let ?capped = "case max_topics self of
                       None \<Rightarrow> False
                     | Some m \<Rightarrow> m \<noteq> 0 \<and> int (length (topic_seen self)) \<ge> m"
      let ?self1 = "self\<lparr>topic_seen := topic_seen self @ [t_topic_id topic]\<rparr>"
      let ?sched = "schedule_topic lib ?self1 (t_topic_id topic) (t_topic_url topic) 0"
      consider (seen) "t_topic_id topic \<in> set (topic_seen self)"
        | (capped) "t_topic_id topic \<notin> set (topic_seen self)" "?capped"
        | (refused) e where "t_topic_id topic \<notin> set (topic_seen self)" "\<not> ?capped"
            "fetch_posts self" "?sched = Inl e"
        | (scheduled) r where "t_topic_id topic \<notin> set (topic_seen self)" "\<not> ?capped"
            "fetch_posts self" "?sched = Inr r"
        | (listed) "t_topic_id topic \<notin> set (topic_seen self)" "\<not> ?capped"
            "\<not> fetch_posts self"
        by (cases ?sched) blast+
      then show ?thesis
      proof cases
        case seen
        with Inr Some Cons.prems
        have "topics_loop lib offset page_url self rows = (self', out, err)"
          by simp
        from Cons.IH [OF this] show ?thesis .
      next
        case capped
        with Inr Some Cons.prems have "self' = self" "out = []"
          by simp_all
        with spider_same_seen [of self] show ?thesis by (simp add: dedup_step_refl)
      next
        case refused
        with Inr Some Cons.prems have s: "self' = ?self1"
          and o: "out = [Item (TopicSummaryItem topic)]"
          by simp_all
        from schedule_topic_Inl [OF refused(4)] have "\<not> request_url_ok lib (t_topic_url topic)" .
        with refused(1) have "dedup_step lib self ?self1 [Item (TopicSummaryItem topic) :: 'd yielded]"
          by (simp add: dedup_step_def summary_topic_ids_def)
        with s o show ?thesis by blast
      next
        case scheduled
        obtain self2 and out2 :: "'d yielded list" and err2
          where rec: "topics_loop lib offset page_url ?self1 rows = (self2, out2, err2)"
          by (cases "topics_loop lib offset page_url ?self1 rows :: spider \<times> 'd yielded list \<times> error option")
        with Inr Some Cons.prems scheduled have s: "self' = self2"
          and o: "out = [Item (TopicSummaryItem topic), Request r] @ out2"
          by simp_all
        note ih = Cons.IH [OF rec]
        from schedule_topic_Inr(1) [OF scheduled(4), of "[]"]
          schedule_topic_Inr(2) [OF scheduled(4)] scheduled(3)
        have "scheduled_topic_ids [Item (TopicSummaryItem topic) :: 'd yielded, Request r] =
                (if fetch_posts self \<and> request_url_ok lib (t_topic_url topic)
                 then [t_topic_id topic] else [])"
          by (simp del: scheduled_topic_ids.simps(2))
        moreover have "yielded_summaries [Item (TopicSummaryItem topic) :: 'd yielded, Request r]
                         = [topic]"
          by simp
        moreover from ih have "dedup_step lib ?self1 self2 out2"
          by simp
        ultimately have "dedup_step lib self self2 ([Item (TopicSummaryItem topic), Request r] @ out2)"
          by (rule dedup_step_fresh [OF scheduled(1)])
        moreover from ih obtain seen where "self2 = ?self1\<lparr>topic_seen := seen\<rparr>"
          by blast
        then have "self2 = self\<lparr>topic_seen := seen\<rparr>"
          by simp
        ultimately show ?thesis
          using s o by blast
      next
        case listed
        obtain self2 and out2 :: "'d yielded list" and err2
          where rec: "topics_loop lib offset page_url ?self1 rows = (self2, out2, err2)"
          by (cases "topics_loop lib offset page_url ?self1 rows :: spider \<times> 'd yielded list \<times> error option")
        with Inr Some Cons.prems listed have s: "self' = self2"
          and o: "out = [Item (TopicSummaryItem topic)] @ out2"
          by simp_all
        note ih = Cons.IH [OF rec]
        from listed(3)
        have "scheduled_topic_ids [Item (TopicSummaryItem topic) :: 'd yielded] =
                (if fetch_posts self \<and> request_url_ok lib (t_topic_url topic)
                 then [t_topic_id topic] else [])"
          by simp
        moreover have "yielded_summaries [Item (TopicSummaryItem topic) :: 'd yielded] = [topic]"
          by simp
        moreover from ih have "dedup_step lib ?self1 self2 out2"
          by simp
        ultimately have "dedup_step lib self self2 ([Item (TopicSummaryItem topic)] @ out2)"
          by (rule dedup_step_fresh [OF listed(1)])
        moreover from ih obtain seen where "self2 = ?self1\<lparr>topic_seen := seen\<rparr>"
          by blast
        then have "self2 = self\<lparr>topic_seen := seen\<rparr>"
          by simp
        ultimately show ?thesis
          using s o by blast
      qed
    qed
  qed
qed


lemma parse_board_after_topics:
  assumes "status response \<notin> {403, 520}"
    and "(if \<not> board_metadata_emitted self
          then (case build_board_info lib self (page response) (resp_url response) of
                  Inl e \<Rightarrow> Inl e
                | Inr info \<Rightarrow> Inr (self\<lparr>board_metadata_emitted := True\<rparr>,
                                  [Item (BoardInfoItem info)]))
          else Inr (self, [])) = Inr (self1, out1 :: 'd yielded list)"
    and "topics_loop lib (meta_get_int (resp_meta response) ''board_offset'' 0)
           (resp_url response) self1 (topic_rows (page response)) = (self2, out2, err2)"
  shows "\<exists>n post err.
           (post = [] \<or> (\<exists>r. post = [Request r] \<and> callback r = ParseBoard))
           \<and> parse_board lib uuid self response =
               (self2\<lparr>board_pages_processed := n\<rparr>, out1 @ out2 @ post, err)"
proof (cases err2)
  case (Some e)
  with assms have "parse_board lib uuid self response =
                     (self2\<lparr>board_pages_processed := board_pages_processed self2\<rparr>,
                      out1 @ out2 @ [], Some e)"
    by (simp add: parse_board_def Let_def)
  then show ?thesis by blast
next
  case None
  let ?self3 = "self2\<lparr>board_pages_processed := board_pages_processed self2 + 1\<rparr>"
  let ?offsets = "collect_offsets (parse_query lib) (board_page_links (page response))
                    ''board'' (board_id ?self3)"
  let ?stop = "case max_board_pages ?self3 of
                 None \<Rightarrow> False
               | Some m \<Rightarrow> m \<noteq> 0 \<and> board_pages_processed ?self3 \<ge> m"
  show ?thesis
  proof (cases "?stop \<or> next_offset ?offsets
                  (meta_get_int (resp_meta response) ''board_offset'' 0) = None")
    case True
    with None assms have "parse_board lib uuid self response = (?self3, out1 @ out2 @ [], None)"
      by (auto simp: parse_board_def Let_def)
    then show ?thesis by blast
  next
    case False
    then obtain next_off where n: "next_offset ?offsets
                  (meta_get_int (resp_meta response) ''board_offset'' 0) = Some next_off"
      and go: "\<not> ?stop"
      by auto
    let ?req = "scrapy_request lib
                  (''https://forums.dansdeals.com/index.php?'' @
                     urlencode lib [(''board'', board_id ?self3 @ ''.'' @ str_of_int lib next_off)])
                  ParseBoard
                  (build_meta ?self3 []
                     [''board_offset'' \<mapsto> IntV next_off,
                      ''board_step'' \<mapsto> IntV (detect_step ?offsets 25),
                      ''cf_retry'' \<mapsto> IntV 0] False)"
    show ?thesis
    proof (cases ?req)
      case (Inl e)
      with None assms n go
      have "parse_board lib uuid self response = (?self3, out1 @ out2 @ [], Some e)"
        by (simp add: parse_board_def Let_def)
      then show ?thesis by blast
    next
      case (Inr r)
      with None assms n go
      have "parse_board lib uuid self response = (?self3, out1 @ out2 @ [Request r], None)"
        by (simp add: parse_board_def Let_def)
      moreover from scrapy_request_callback [OF Inr] have "callback r = ParseBoard" .
      ultimately show ?thesis by blast
    qed
  qed
qed

lemma parse_board_dedup_step:
  assumes pb: "parse_board lib uuid self response = (self', out :: 'd yielded list, err)"
    and cb: "callback (resp_request response) = ParseBoard"
  shows "dedup_step lib self self' out"
proof (cases "status response \<in> {403, 520}")
  case True
  show ?thesis
  proof (cases "retry_with_new_context self uuid response")
    case None
    with True pb have "self' = self" "out = []"
      by (simp_all add: parse_board_def)
    then show ?thesis by (simp add: dedup_step_refl)
  next
    case (Some r)
    with True pb have so: "self' = self" "out = [Request r]"
      by (simp_all add: parse_board_def)
    from retry_Some_props(7) [OF Some] cb have "callback r = ParseBoard"
      by simp
    with so show ?thesis by (simp add: dedup_step_def summary_topic_ids_def)
  qed
next
  case False
  let ?pre = "if \<not> board_metadata_emitted self
          then (case build_board_info lib self (page response) (resp_url response) of
                  Inl e \<Rightarrow> Inl e
                | Inr info \<Rightarrow> Inr (self\<lparr>board_metadata_emitted := True\<rparr>,
                                  [Item (BoardInfoItem info) :: 'd yielded]))
          else Inr (self, [])"
  show ?thesis
  proof (cases ?pre)
    case (Inl e)
    with False pb have "self' = self" "out = []"
      by (simp_all add: parse_board_def Let_def)
    then show ?thesis by (simp add: dedup_step_refl)
  next
    case (Inr p)
    obtain self1 out1 where p: "p = (self1, out1)"
      by (cases p)
    from Inr p have e: "\<exists>b. self1 = self\<lparr>board_metadata_emitted := b\<rparr>"
    proof (cases "board_metadata_emitted self")
      case True
      with Inr p have "self1 = self\<lparr>board_metadata_emitted := True\<rparr>"
        by simp
      then show ?thesis by blast
    next
      case False
      with Inr p show ?thesis
        by (auto split: sum.splits)
    qed
    from Inr p have pre: "out1 = [] \<or> (\<exists>b. out1 = [Item (BoardInfoItem b)])"
      by (auto split: sum.splits if_splits)
    obtain self2 and out2 :: "'d yielded list" and err2
      where tl: "topics_loop lib (meta_get_int (resp_meta response) ''board_offset'' 0)
           (resp_url response) self1 (topic_rows (page response)) = (self2, out2, err2)"
      by (cases "topics_loop lib (meta_get_int (resp_meta response) ''board_offset'' 0)
           (resp_url response) self1 (topic_rows (page response))
             :: spider \<times> 'd yielded list \<times> error option")
    from Inr p have pre_eq: "?pre = Inr (self1, out1)"
      by simp
    from parse_board_after_topics [OF False pre_eq tl, of uuid] pb
    obtain n post where post: "post = [] \<or> (\<exists>r. post = [Request r] \<and> callback r = ParseBoard)"
      and s: "self' = self2\<lparr>board_pages_processed := n\<rparr>" and o: "out = out1 @ out2 @ post"
      by auto
    from pre have p1: "yielded_summaries out1 = []" "scheduled_topic_ids out1 = []"
      by auto
    from post have p2: "yielded_summaries post = []" "scheduled_topic_ids post = []"
      by auto
    from o p1 p2 have ids: "yielded_summaries out = yielded_summaries out2"
      "scheduled_topic_ids out = scheduled_topic_ids out2"
      by (simp_all add: yielded_summaries_append scheduled_topic_ids_append)
    note t = topics_loop_dedup_step [OF tl]
    from t obtain seen where "self2 = self1\<lparr>topic_seen := seen\<rparr>"
      by blast
    with e s have f: "fetch_posts self' = fetch_posts self"
      by auto
    from e have same: "topic_seen self1 = topic_seen self" "fetch_posts self1 = fetch_posts self"
      by auto
    from s have "topic_seen self' = topic_seen self2"
      by simp
    with t ids same f show ?thesis
      unfolding dedup_step_def summary_topic_ids_def by simp
  qed
qed

lemma run_board_pages_dedup_step:
  assumes "\<forall>r \<in> set responses. callback (resp_request r) = ParseBoard"
    and "run_board_pages lib uuids self responses = (self', out)"
  shows "dedup_step lib self self' out"
  using assms
proof (induction responses arbitrary: uuids self self' out)
  case Nil
  then show ?case by (simp add: dedup_step_refl)
next
  case (Cons response responses)
  obtain self1 and out1 :: "'a yielded list" and err1
    where 1: "parse_board lib (uuids 0) self response = (self1, out1, err1)"
    by (cases "parse_board lib (uuids 0) self response :: spider \<times> 'a yielded list \<times> error option")
  obtain self2 and out2 :: "'a yielded list"
    where 2: "run_board_pages lib (\<lambda>i. uuids (Suc i)) self1 responses = (self2, out2)"
    by (cases "run_board_pages lib (\<lambda>i. uuids (Suc i)) self1 responses :: spider \<times> 'a yielded list")
  from Cons.prems(2) 1 2 have r: "self' = self2" "out = out1 @ out2"
    by simp_all
  from Cons.prems(1) have "callback (resp_request response) = ParseBoard"
    by simp
  from parse_board_dedup_step [OF 1 this] have a: "dedup_step lib self self1 out1" .
  from Cons.prems(1) have "\<forall>r \<in> set responses. callback (resp_request r) = ParseBoard"
    by simp
  from Cons.IH [OF this 2] have b: "dedup_step lib self1 self2 out2" .
  from dedup_step_trans [OF a b] r show ?case
    by simp
qed

lemma dedup_step_distinct_scheduled:
  assumes "dedup_step lib self self' out"
  shows "distinct (scheduled_topic_ids out)"
    and "set (scheduled_topic_ids out) \<subseteq> set (summary_topic_ids out)"
proof -
  from assms have d: "distinct (map t_topic_id (yielded_summaries out))"
    and s: "scheduled_topic_ids out =
         (if fetch_posts self
          then map t_topic_id [t \<leftarrow> yielded_summaries out. request_url_ok lib (t_topic_url t)]
          else [])"
    by (simp_all add: dedup_step_def summary_topic_ids_def)
  from d have "distinct (map t_topic_id [t \<leftarrow> yielded_summaries out. request_url_ok lib (t_topic_url t)])"
    by (rule distinct_map_filter)
  with s show "distinct (scheduled_topic_ids out)"
    by simp
  from s show "set (scheduled_topic_ids out) \<subseteq> set (summary_topic_ids out)"
    by (auto simp: summary_topic_ids_def)
qed


text \<open>
  Claim C3. Over the board pages of one run, whatever they contain, in whatever order
  topics reappear and whichever calls end with an exception, the topic ids for which a
  traversal is scheduled are pairwise different, as are those of the emitted summaries;
  none of them was in the dedup set before, and all are in it afterwards. With post
  fetching enabled the scheduled ids are those of the emitted summaries whose topic
  link is a URL that a request accepts. A topic whose id is already in the dedup set is
  passed over: nothing is emitted or scheduled for it and the spider is unchanged.
\<close>

theorem topic_scheduled_at_most_once:
  "((\<forall>r \<in> set responses. callback (resp_request r) = ParseBoard) \<longrightarrow>
      (case run_board_pages lib uuids self responses of
         (self', out :: 'd yielded list) \<Rightarrow>
           distinct (scheduled_topic_ids out)
           \<and> distinct (summary_topic_ids out)
           \<and> set (scheduled_topic_ids out) \<inter> set (topic_seen self) = {}
           \<and> set (summary_topic_ids out) \<inter> set (topic_seen self) = {}
           \<and> scheduled_topic_ids out =
               (if fetch_posts self
                then map t_topic_id
                       [t \<leftarrow> yielded_summaries out. request_url_ok lib (t_topic_url t)]
                else [])
           \<and> topic_seen self' = topic_seen self @ summary_topic_ids out))
   \<and> (extract_topic lib self offset page_url row = Inr (Some topic)
        \<and> t_topic_id topic \<in> set (topic_seen self) \<longrightarrow>
        (topics_loop lib offset page_url self (row # rows)
           :: spider \<times> 'd yielded list \<times> error option)
        = topics_loop lib offset page_url self rows)
   \<and> ((\<forall>row \<in> set rows.
          case extract_topic lib self offset page_url row of
            Inl e \<Rightarrow> False
          | Inr None \<Rightarrow> True
          | Inr (Some topic) \<Rightarrow> t_topic_id topic \<in> set (topic_seen self)) \<longrightarrow>
        (topics_loop lib offset page_url self rows
           :: spider \<times> 'd yielded list \<times> error option) = (self, [], None))"
proof (intro conjI impI)
  assume cb: "\<forall>r \<in> set responses. callback (resp_request r) = ParseBoard"
  obtain self' and out :: "'d yielded list"
    where r: "run_board_pages lib uuids self responses = (self', out)"
    by (cases "run_board_pages lib uuids self responses :: spider \<times> 'd yielded list")
  from run_board_pages_dedup_step [OF cb r] have d: "dedup_step lib self self' out" .
  from d dedup_step_distinct_scheduled [OF d]
  have main: "distinct (scheduled_topic_ids out)
           \<and> distinct (summary_topic_ids out)
           \<and> set (scheduled_topic_ids out) \<inter> set (topic_seen self) = {}
           \<and> set (summary_topic_ids out) \<inter> set (topic_seen self) = {}
           \<and> scheduled_topic_ids out =
               (if fetch_posts self
                then map t_topic_id
                       [t \<leftarrow> yielded_summaries out. request_url_ok lib (t_topic_url t)]
                else [])
           \<and> topic_seen self' = topic_seen self @ summary_topic_ids out"
    unfolding dedup_step_def by blast
  show "case run_board_pages lib uuids self responses of
         (self', out :: 'd yielded list) \<Rightarrow>
           distinct (scheduled_topic_ids out)
           \<and> distinct (summary_topic_ids out)
           \<and> set (scheduled_topic_ids out) \<inter> set (topic_seen self) = {}
           \<and> set (summary_topic_ids out) \<inter> set (topic_seen self) = {}
           \<and> scheduled_topic_ids out =
               (if fetch_posts self
                then map t_topic_id
                       [t \<leftarrow> yielded_summaries out. request_url_ok lib (t_topic_url t)]
                else [])
           \<and> topic_seen self' = topic_seen self @ summary_topic_ids out"
    unfolding r prod.case by (rule main)
next
  assume "extract_topic lib self offset page_url row = Inr (Some topic)
          \<and> t_topic_id topic \<in> set (topic_seen self)"
  then show "(topics_loop lib offset page_url self (row # rows)
                :: spider \<times> 'd yielded list \<times> error option)
             = topics_loop lib offset page_url self rows"
    by simp
next
  assume "\<forall>row \<in> set rows.
          case extract_topic lib self offset page_url row of
            Inl e \<Rightarrow> False
          | Inr None \<Rightarrow> True
          | Inr (Some topic) \<Rightarrow> t_topic_id topic \<in> set (topic_seen self)"
  then show "(topics_loop lib offset page_url self rows
                :: spider \<times> 'd yielded list \<times> error option) = (self, [], None)"
    by (induction rows) (auto split: sum.splits option.splits)
qed

theorem topic_scheduled_at_most_once_witness:
  "(case run_board_pages example_lib (\<lambda>i. ''u'') example_spider
           [example_board_response 0
              [example_url ''topic=101.0'', example_url ''topic=102.0'']
              [Some (example_url ''board=8.25'')],
            example_board_response 25
              [example_url ''topic=102.0'', example_url ''topic=101.0''] []] of
      (self', out :: unit yielded list) \<Rightarrow>
        distinct (scheduled_topic_ids out) \<and> scheduled_topic_ids out = [''101'', ''102'']
        \<and> map t_views (yielded_summaries out) = [Some 1204, Some 1204]
        \<and> topic_seen self' = [''101'', ''102''])
   \<and> (topics_loop example_lib 0 ''u'' (example_spider\<lparr>topic_seen := [''101'']\<rparr>)
         [example_row (example_url ''topic=101.0''), example_row (example_url ''topic=101.0'')]
         :: spider \<times> unit yielded list \<times> error option)
       = (example_spider\<lparr>topic_seen := [''101'']\<rparr>, [], None)"
proof -
  let ?responses =
    "[example_board_response 0
        [example_url ''topic=101.0'', example_url ''topic=102.0'']
        [Some (example_url ''board=8.25'')],
      example_board_response 25
        [example_url ''topic=102.0'', example_url ''topic=101.0''] []]"
  let ?run = "run_board_pages example_lib (\<lambda>i. ''u'') example_spider ?responses
                :: spider \<times> unit yielded list"
  have cb: "\<forall>r \<in> set ?responses. callback (resp_request r) = ParseBoard"
    by (simp add: example_board_response_def)
  have ids: "scheduled_topic_ids (snd ?run) = [''101'', ''102'']"
    by code_simp
  have views: "map t_views (yielded_summaries (snd ?run)) = [Some 1204, Some 1204]"
    by code_simp
  have seen: "topic_seen (fst ?run) = [''101'', ''102'']"
    by code_simp
  from cb have "case ?run of
         (self', out) \<Rightarrow>
           distinct (scheduled_topic_ids out)
           \<and> distinct (summary_topic_ids out)
           \<and> set (scheduled_topic_ids out) \<inter> set (topic_seen example_spider) = {}
           \<and> set (summary_topic_ids out) \<inter> set (topic_seen example_spider) = {}
           \<and> scheduled_topic_ids out =
               (if fetch_posts example_spider
                then map t_topic_id
                       [t \<leftarrow> yielded_summaries out. request_url_ok example_lib (t_topic_url t)]
                else [])
           \<and> topic_seen self' = topic_seen example_spider @ summary_topic_ids out"
    by (rule topic_scheduled_at_most_once [THEN conjunct1, THEN mp])
  then have d: "distinct (scheduled_topic_ids (snd ?run))"
    unfolding case_prod_beta by (rule conjunct1)
  have 1: "case ?run of
      (self', out) \<Rightarrow>
        distinct (scheduled_topic_ids out) \<and> scheduled_topic_ids out = [''101'', ''102'']
        \<and> map t_views (yielded_summaries out) = [Some 1204, Some 1204]
        \<and> topic_seen self' = [''101'', ''102'']"
    unfolding case_prod_beta using d ids views seen by (intro conjI)
  let ?self = "example_spider\<lparr>topic_seen := [''101'']\<rparr>"
  let ?rows = "[example_row (example_url ''topic=101.0''),
                example_row (example_url ''topic=101.0'')]"
  have row: "(case extract_topic example_lib ?self 0 ''u''
                     (example_row (example_url ''topic=101.0'')) of
                Inl e \<Rightarrow> False
              | Inr None \<Rightarrow> True
              | Inr (Some topic) \<Rightarrow> t_topic_id topic \<in> set (topic_seen ?self))"
    by code_simp
  then have "\<forall>row \<in> set ?rows.
          case extract_topic example_lib ?self 0 ''u'' row of
            Inl e \<Rightarrow> False
          | Inr None \<Rightarrow> True
          | Inr (Some topic) \<Rightarrow> t_topic_id topic \<in> set (topic_seen ?self)"
    by simp
  then have 2: "(topics_loop example_lib 0 ''u'' ?self ?rows
                   :: spider \<times> unit yielded list \<times> error option) = (?self, [], None)"
    by (rule topic_scheduled_at_most_once [THEN conjunct2, THEN conjunct2, THEN mp])
  from 1 2 show ?thesis by (rule conjI)
qed

subsection \<open>Post positions\<close>

lemma extract_post_raises_iff:
  "(\<exists>e. extract_post lib b t k u idx w = Inl e) \<longleftrightarrow> post_raises lib w"
  by (auto simp: extract_post_def post_raises_def Let_def isl_def
           split: option.splits sum.splits)

lemma extract_post_Some_iff:
  "(\<exists>p. extract_post lib b t k u idx w = Inr (Some p)) \<longleftrightarrow>
     is_post_wrapper w \<and> \<not> post_raises lib w"
  by (auto simp: extract_post_def post_raises_def is_post_wrapper_def Let_def isl_def
           split: option.splits sum.splits)

lemma extract_post_position:
  "extract_post lib b t k u idx w = Inr (Some p) \<Longrightarrow> p_position p = k + int idx + 1"
  by (auto simp: extract_post_def Let_def split: option.splits if_splits sum.splits)

lemma extract_post_cases:
  obtains (raises) e where "extract_post lib b t k u idx w = Inl e" "post_raises lib w"
  | (skips) "extract_post lib b t k u idx w = Inr None" "\<not> is_post_wrapper w"
      "\<not> post_raises lib w"
  | (yields) p where "extract_post lib b t k u idx w = Inr (Some p)" "is_post_wrapper w"
      "\<not> post_raises lib w" "p_position p = k + int idx + 1"
proof (cases "extract_post lib b t k u idx w")
  case (Inl e)
  with extract_post_raises_iff [of lib b t k u idx w] raises show ?thesis
    by blast
next
  case (Inr r)
  with extract_post_raises_iff [of lib b t k u idx w] have nr: "\<not> post_raises lib w"
    by auto
  show ?thesis
  proof (cases r)
    case None
    with Inr extract_post_Some_iff [of lib b t k u idx w] nr have "\<not> is_post_wrapper w"
      by auto
    with Inr None nr skips show ?thesis by blast
  next
    case (Some p)
    with Inr extract_post_Some_iff [of lib b t k u idx w] have "is_post_wrapper w"
      by auto
    with Inr Some nr extract_post_position [of lib b t k u idx w p] yields show ?thesis
      by blast
  qed
qed

lemma extract_posts_from_positions:
  "map p_position (fst (extract_posts_from lib b t k u n ws)) =
     [k + int idx + 1. (idx, w) \<leftarrow> enumerate n (takeWhile (\<lambda>w. \<not> post_raises lib w) ws),
                        is_post_wrapper w]"
proof (induction ws arbitrary: n)
  case Nil
  show ?case by simp
next
  case (Cons w ws)
  show ?case
  proof (cases rule: extract_post_cases [of lib b t k u n w])
    case (raises e)
    then show ?thesis by simp
  next
    case skips
    with Cons [of "Suc n"] show ?thesis by simp
  next
    case (yields p)
    with Cons [of "Suc n"] show ?thesis by (simp add: split_beta)
  qed
qed

lemma extract_posts_from_error:
  "snd (extract_posts_from lib b t k u n ws) = None \<longleftrightarrow> (\<forall>w \<in> set ws. \<not> post_raises lib w)"
proof (induction ws arbitrary: n)
  case Nil
  show ?case by simp
next
  case (Cons w ws)
  show ?case
  proof (cases rule: extract_post_cases [of lib b t k u n w])
    case (raises e)
    then show ?thesis by simp
  next
    case skips
    with Cons [of "Suc n"] show ?thesis by simp
  next
    case (yields p)
    with Cons [of "Suc n"] show ?thesis by (simp add: split_beta)
  qed
qed

lemma positions_concat_as_filter:
  "[k + int idx + 1. (idx, w) \<leftarrow> iws, P w] =
     map (\<lambda>i. k + int i + 1) (map fst (filter (\<lambda>(idx, w). P w) iws))"
  by (induction iws) auto

lemma sorted_indices_filter:
  "sorted_wrt (<) (map fst (filter Q (enumerate n ws)))"
proof (induction ws arbitrary: n)
  case Nil
  show ?case by simp
next
  case (Cons w ws)
  note rest = Cons.IH [of "Suc n"]
  have low: "\<forall>i \<in> set (map fst (filter Q (enumerate (Suc n) ws))). n < i"
    by (auto simp: in_set_enumerate_eq)
  show ?case
    by (cases "Q (n, w)") (simp_all add: rest low)
qed

lemma positions_increasing:
  "sorted_wrt (<) [k + int idx + 1. (idx, w) \<leftarrow> enumerate n ws, P w]"
proof -
  let ?l = "map fst (filter (\<lambda>(idx, w). P w) (enumerate n ws))"
  have s: "sorted_wrt (<) ?l"
    by (rule sorted_indices_filter)
  have "sorted_wrt (\<lambda>x y. k + int x + 1 < k + int y + 1) ?l"
    by (rule sorted_wrt_mono_rel [OF _ s]) simp
  then have "sorted_wrt (<) (map (\<lambda>i. k + int i + 1) ?l)"
    by (simp only: sorted_wrt_map)
  then show ?thesis
    by (simp only: positions_concat_as_filter)
qed

lemma positions_range:
  assumes "x \<in> set [k + int idx + 1. (idx, w) \<leftarrow> enumerate 0 ws, P w]"
  shows "k + 1 \<le> x \<and> x \<le> k + int (length ws)"
proof -
  from assms obtain i w where "(i, w) \<in> set (enumerate 0 ws)" "x = k + int i + 1"
    by auto
  then show ?thesis
    by (auto simp: in_set_enumerate_eq)
qed

lemma positions_upto: "map (\<lambda>i. k + int i + 1) [0..<n] = [k + 1 .. k + int n]"
proof (induction n)
  case 0
  show ?case by simp
next
  case (Suc n)
  then show ?case
    by (simp add: upto_rec2 add.commute add.left_commute)
qed

lemma extract_posts_positions:
  "map p_position (fst (extract_posts lib soup b t k u)) =
     [k + int idx + 1.
        (idx, w) \<leftarrow> enumerate 0 (takeWhile (\<lambda>w. \<not> post_raises lib w) (wrappers soup)),
        is_post_wrapper w]"
  by (simp only: extract_posts_def extract_posts_from_positions)

lemma extract_posts_range:
  assumes "p \<in> set (fst (extract_posts lib soup b t k u))"
  shows "k + 1 \<le> p_position p \<and> p_position p \<le> k + int (length (wrappers soup))"
proof -
  let ?ws = "takeWhile (\<lambda>w. \<not> post_raises lib w) (wrappers soup)"
  from assms have "p_position p \<in> set (map p_position (fst (extract_posts lib soup b t k u)))"
    by simp
  then have "p_position p \<in> set [k + int idx + 1. (idx, w) \<leftarrow> enumerate 0 ?ws, is_post_wrapper w]"
    by (simp only: extract_posts_positions)
  from positions_range [OF this]
  have "k + 1 \<le> p_position p" "p_position p \<le> k + int (length ?ws)"
    by simp_all
  moreover have "length ?ws \<le> length (wrappers soup)"
    by (rule length_takeWhile_le)
  ultimately show ?thesis by simp
qed

lemma extract_posts_all:
  assumes "\<forall>w \<in> set (wrappers soup). is_post_wrapper w \<and> \<not> post_raises lib w"
  shows "map p_position (fst (extract_posts lib soup b t k u)) =
           [k + 1 .. k + int (length (wrappers soup))]"
    and "length (fst (extract_posts lib soup b t k u)) = length (wrappers soup)"
    and "snd (extract_posts lib soup b t k u) = None"
proof -
  from assms have tw: "takeWhile (\<lambda>w. \<not> post_raises lib w) (wrappers soup) = wrappers soup"
    by (simp add: takeWhile_eq_all_conv)
  have f: "filter (\<lambda>(idx, w). is_post_wrapper w) (enumerate 0 (wrappers soup))
           = enumerate 0 (wrappers soup)"
    using assms by (auto simp: filter_id_conv in_set_enumerate_eq)
  have "map p_position (fst (extract_posts lib soup b t k u)) =
          map (\<lambda>i. k + int i + 1) [0..<length (wrappers soup)]"
    by (simp only: extract_posts_positions positions_concat_as_filter tw f map_fst_enumerate)
       simp
  then show p: "map p_position (fst (extract_posts lib soup b t k u)) =
                  [k + 1 .. k + int (length (wrappers soup))]"
    by (simp only: positions_upto)
  from arg_cong [OF p, of length]
  show "length (fst (extract_posts lib soup b t k u)) = length (wrappers soup)"
    by simp
  from assms show "snd (extract_posts lib soup b t k u) = None"
    by (simp add: extract_posts_def extract_posts_from_error)
qed


text \<open>
  Claim C6 (amended). The positions emitted for a topic page are strictly increasing and
  offset by the page's starting offset \<open>k\<close>: the post taken from the wrapper at index
  \<open>idx\<close> (counted from 0 over all wrappers of the page) gets position \<open>k + idx + 1\<close>, so
  every position lies between \<open>k + 1\<close> and \<open>k\<close> plus the number of wrappers. The
  extraction ends with an exception at the first wrapper whose post id makes a selector
  that the selector library refuses, or whose like count cannot be converted; the posts
  of the wrappers before it have been emitted, with these positions. When every wrapper
  yields a post, the \<open>n\<close> posts of the page get exactly the positions \<open>k + 1\<close> to
  \<open>k + n\<close>: five posts at offset 0 get 1 to 5, three posts at offset 5 get 6 to 8.
\<close>

theorem post_positions_follow_wrappers:
  "sorted_wrt (<) (map p_position (fst (extract_posts lib soup b t k u)))
   \<and> map p_position (fst (extract_posts lib soup b t k u)) =
       [k + int idx + 1.
          (idx, w) \<leftarrow> enumerate 0 (takeWhile (\<lambda>w. \<not> post_raises lib w) (wrappers soup)),
          is_post_wrapper w]
   \<and> (snd (extract_posts lib soup b t k u) = None \<longleftrightarrow>
        (\<forall>w \<in> set (wrappers soup). \<not> post_raises lib w))
   \<and> ((\<exists>e. extract_post lib b t k u i wrapper = Inl e) \<longleftrightarrow> post_raises lib wrapper)
   \<and> (\<forall>p \<in> set (fst (extract_posts lib soup b t k u)).
         k + 1 \<le> p_position p \<and> p_position p \<le> k + int (length (wrappers soup)))
   \<and> ((\<forall>w \<in> set (wrappers soup). is_post_wrapper w \<and> \<not> post_raises lib w) \<longrightarrow>
        snd (extract_posts lib soup b t k u) = None
        \<and> length (fst (extract_posts lib soup b t k u)) = length (wrappers soup)
        \<and> map p_position (fst (extract_posts lib soup b t k u)) =
            [k + 1 .. k + int (length (fst (extract_posts lib soup b t k u)))])
   \<and> map p_position (fst (extract_posts example_lib
         (example_topic_page [Some ''msg_5001'', Some ''msg_5002'', Some ''msg_5003'',
                              Some ''msg_5004'', Some ''msg_5005''])
         ''8'' ''101'' 0 ''u'')) = [1, 2, 3, 4, 5]
   \<and> map p_position (fst (extract_posts example_lib
         (example_topic_page [Some ''msg_5006'', Some ''msg_5007'', Some ''msg_5008''])
         ''8'' ''101'' 5 ''u'')) = [6, 7, 8]
   \<and> map p_post_id (fst (extract_posts example_lib
         (example_topic_page [Some ''msg_5006'', Some ''msg_5007'', Some ''msg_5008''])
         ''8'' ''101'' 5 ''u'')) = [''5006'', ''5007'', ''5008'']
   \<and> snd (extract_posts example_lib
         (example_topic_page [Some ''msg_5006'', Some ''msg_5007'', Some ''msg_5008''])
         ''8'' ''101'' 5 ''u'') = None
   \<and> map p_position (fst (extract_posts example_lib
         (example_topic_page [Some ''msg_5001'', Some ''msg_1.5'', Some ''msg_5003''])
         ''8'' ''101'' 0 ''u'')) = [1]
   \<and> snd (extract_posts example_lib
         (example_topic_page [Some ''msg_5001'', Some ''msg_1.5'', Some ''msg_5003''])
         ''8'' ''101'' 0 ''u'') = Some (SelectorSyntaxError ''ul#msg_1.5_extra_info'')"
proof (intro conjI impI ballI)
  show "sorted_wrt (<) (map p_position (fst (extract_posts lib soup b t k u)))"
    by (simp only: extract_posts_positions positions_increasing)
  show "map p_position (fst (extract_posts lib soup b t k u)) =
       [k + int idx + 1.
          (idx, w) \<leftarrow> enumerate 0 (takeWhile (\<lambda>w. \<not> post_raises lib w) (wrappers soup)),
          is_post_wrapper w]"
    by (rule extract_posts_positions)
  show "snd (extract_posts lib soup b t k u) = None \<longleftrightarrow>
        (\<forall>w \<in> set (wrappers soup). \<not> post_raises lib w)"
    by (simp only: extract_posts_def extract_posts_from_error)
  show "(\<exists>e. extract_post lib b t k u i wrapper = Inl e) \<longleftrightarrow> post_raises lib wrapper"
    by (rule extract_post_raises_iff)
  show "k + 1 \<le> p_position p" "p_position p \<le> k + int (length (wrappers soup))"
    if "p \<in> set (fst (extract_posts lib soup b t k u))" for p
    using extract_posts_range [OF that] by simp_all
  show "map p_position (fst (extract_posts example_lib
         (example_topic_page [Some ''msg_5001'', Some ''msg_5002'', Some ''msg_5003'',
                              Some ''msg_5004'', Some ''msg_5005''])
         ''8'' ''101'' 0 ''u'')) = [1, 2, 3, 4, 5]"
    by code_simp
  show "map p_position (fst (extract_posts example_lib
         (example_topic_page [Some ''msg_5006'', Some ''msg_5007'', Some ''msg_5008''])
         ''8'' ''101'' 5 ''u'')) = [6, 7, 8]"
    by code_simp
  show "map p_post_id (fst (extract_posts example_lib
         (example_topic_page [Some ''msg_5006'', Some ''msg_5007'', Some ''msg_5008''])
         ''8'' ''101'' 5 ''u'')) = [''5006'', ''5007'', ''5008'']"
    by code_simp
  show "snd (extract_posts example_lib
         (example_topic_page [Some ''msg_5006'', Some ''msg_5007'', Some ''msg_5008''])
         ''8'' ''101'' 5 ''u'') = None"
    by code_simp
  show "map p_position (fst (extract_posts example_lib
         (example_topic_page [Some ''msg_5001'', Some ''msg_1.5'', Some ''msg_5003''])
         ''8'' ''101'' 0 ''u'')) = [1]"
    by code_simp
  show "snd (extract_posts example_lib
         (example_topic_page [Some ''msg_5001'', Some ''msg_1.5'', Some ''msg_5003''])
         ''8'' ''101'' 0 ''u'') = Some (SelectorSyntaxError ''ul#msg_1.5_extra_info'')"
    by code_simp
next
  assume a: "\<forall>w \<in> set (wrappers soup). is_post_wrapper w \<and> \<not> post_raises lib w"
  from extract_posts_all(3) [OF a]
  show "snd (extract_posts lib soup b t k u) = None" .
  from extract_posts_all(2) [OF a]
  show l: "length (fst (extract_posts lib soup b t k u)) = length (wrappers soup)" .
  from extract_posts_all(1) [OF a] l
  show "map p_position (fst (extract_posts lib soup b t k u)) =
            [k + 1 .. k + int (length (fst (extract_posts lib soup b t k u)))]"
    by simp
qed

theorem post_positions_follow_wrappers_witness:
  "snd (extract_posts example_lib
      (example_topic_page [Some ''msg_5006'', Some ''msg_5007'', Some ''msg_5008''])
      ''8'' ''101'' 5 ''u'') = None
   \<and> length (fst (extract_posts example_lib
      (example_topic_page [Some ''msg_5006'', Some ''msg_5007'', Some ''msg_5008''])
      ''8'' ''101'' 5 ''u'')) = 3
   \<and> map p_position (fst (extract_posts example_lib
      (example_topic_page [Some ''msg_5006'', Some ''msg_5007'', Some ''msg_5008''])
      ''8'' ''101'' 5 ''u'')) = [5 + 1 .. 5 + 3]"
proof -
  let ?soup = "example_topic_page [Some ''msg_5006'', Some ''msg_5007'', Some ''msg_5008'']"
  have a: "\<forall>w \<in> set (wrappers ?soup). is_post_wrapper w \<and> \<not> post_raises example_lib w"
    by code_simp
  have n: "length (wrappers ?soup) = 3"
    by (simp add: example_topic_page_def)
  from a have "snd (extract_posts example_lib ?soup ''8'' ''101'' 5 ''u'') = None
        \<and> length (fst (extract_posts example_lib ?soup ''8'' ''101'' 5 ''u''))
            = length (wrappers ?soup)
        \<and> map p_position (fst (extract_posts example_lib ?soup ''8'' ''101'' 5 ''u'')) =
            [5 + 1 .. 5 + int (length (fst (extract_posts example_lib ?soup ''8'' ''101'' 5 ''u'')))]"
    by (rule post_positions_follow_wrappers
          [THEN conjunct2, THEN conjunct2, THEN conjunct2, THEN conjunct2, THEN conjunct2,
           THEN conjunct1, THEN mp])
  with n show ?thesis
    by simp
qed

text \<open>
  A wrapper that yields no post still counts: on a page at offset 0 whose first wrapper
  has no content element, the extraction ends without an exception and the one
  extracted post gets position 2, not 1.
\<close>

theorem post_positions_skipped_wrapper_counterexample:
  "snd (extract_posts example_lib (example_topic_page [None, Some ''msg_5002''])
          ''8'' ''101'' 0 ''u'') = None
   \<and> length (fst (extract_posts example_lib (example_topic_page [None, Some ''msg_5002''])
          ''8'' ''101'' 0 ''u'')) = 1
   \<and> map p_position
        (fst (extract_posts example_lib (example_topic_page [None, Some ''msg_5002''])
           ''8'' ''101'' 0 ''u'')) = [2]
   \<and> map p_position
        (fst (extract_posts example_lib (example_topic_page [None, Some ''msg_5002''])
           ''8'' ''101'' 0 ''u''))
       \<noteq> [0 + 1 .. 0 + 1]"
  by code_simp

subsection \<open>Step detection\<close>

lemma consecutive_diffs_Cons2:
  "consecutive_diffs (x # y # ys) = (if y > x then [y - x] else []) @ consecutive_diffs (y # ys)"
  by (simp add: consecutive_diffs_def)

lemma consecutive_diffs_short [simp]:
  "consecutive_diffs [] = []" "consecutive_diffs [x] = []"
  by (simp_all add: consecutive_diffs_def)

lemma set_consecutive_diffs:
  "set (consecutive_diffs ys) =
     {ys ! Suc i - ys ! i | i. Suc i < length ys \<and> ys ! i < ys ! Suc i}"
proof (induction ys rule: induct_list012)
  case 1 show ?case by simp
next
  case (2 x) show ?case by simp
next
  case (3 x y zs)
  have "{(x # y # zs) ! Suc i - (x # y # zs) ! i | i.
           Suc i < length (x # y # zs) \<and> (x # y # zs) ! i < (x # y # zs) ! Suc i}
        = (if x < y then {y - x} else {}) \<union>
          {(y # zs) ! Suc i - (y # zs) ! i | i.
           Suc i < length (y # zs) \<and> (y # zs) ! i < (y # zs) ! Suc i}"
    (is "?L = ?R")
  proof (intro set_eqI iffI)
    fix d assume "d \<in> ?L"
    then obtain i where i: "Suc i < length (x # y # zs)"
      "(x # y # zs) ! i < (x # y # zs) ! Suc i" "d = (x # y # zs) ! Suc i - (x # y # zs) ! i"
      by blast
    show "d \<in> ?R"
    proof (cases i)
      case 0
      with i show ?thesis by simp
    next
      case (Suc j)
      with i have "Suc j < length (y # zs)" "(y # zs) ! j < (y # zs) ! Suc j"
        "d = (y # zs) ! Suc j - (y # zs) ! j"
        by simp_all
      then show ?thesis by blast
    qed
  next
    fix d assume "d \<in> ?R"
    then consider "x < y" "d = y - x"
      | j where "Suc j < length (y # zs)" "(y # zs) ! j < (y # zs) ! Suc j"
        "d = (y # zs) ! Suc j - (y # zs) ! j"
      by (auto split: if_splits)
    then show "d \<in> ?L"
    proof cases
      case 1
      then have "Suc 0 < length (x # y # zs) \<and> (x # y # zs) ! 0 < (x # y # zs) ! Suc 0
                 \<and> d = (x # y # zs) ! Suc 0 - (x # y # zs) ! 0"
        by simp
      then show ?thesis by blast
    next
      case 2
      then have "Suc (Suc j) < length (x # y # zs)
                 \<and> (x # y # zs) ! Suc j < (x # y # zs) ! Suc (Suc j)
                 \<and> d = (x # y # zs) ! Suc (Suc j) - (x # y # zs) ! Suc j"
        by simp
      then show ?thesis by blast
    qed
  qed
  with 3 show ?case
    by (simp add: consecutive_diffs_Cons2 del: nth_Cons_Suc length_Cons)
qed

lemma consecutive_diffs_pos: "d \<in> set (consecutive_diffs ys) \<Longrightarrow> 0 < d"
  by (auto simp: set_consecutive_diffs)

lemma consecutive_diffs_pair:
  "d \<in> set (consecutive_diffs ys) \<Longrightarrow> \<exists>a \<in> set ys. \<exists>b \<in> set ys. a < b \<and> d = b - a"
  by (fastforce simp: set_consecutive_diffs)

lemma consecutive_diffs_below:
  "sorted ys \<Longrightarrow> a \<in> set ys \<Longrightarrow> b \<in> set ys \<Longrightarrow> a < b \<Longrightarrow>
     \<exists>d \<in> set (consecutive_diffs ys). d \<le> b - a"
proof (induction ys rule: induct_list012)
  case 1 then show ?case by simp
next
  case (2 x) then show ?case by simp
next
  case (3 x y zs)
  from "3.prems"(1) have s: "sorted (y # zs)" and xy: "x \<le> y"
    and ylow: "\<forall>z \<in> set (y # zs). y \<le> z" and xlow: "\<forall>z \<in> set (y # zs). x \<le> z"
    by auto
  show ?case
  proof (cases "a \<in> set (y # zs)")
    case True
    with ylow xy \<open>a < b\<close> have "x < b" by auto
    with \<open>b \<in> set (x # y # zs)\<close> have "b \<in> set (y # zs)" by auto
    from "3.IH"(2) [OF s True this \<open>a < b\<close>] show ?thesis
      by (auto simp: consecutive_diffs_Cons2)
  next
    case False
    with \<open>a \<in> set (x # y # zs)\<close> have ax: "a = x" by auto
    with \<open>a < b\<close> \<open>b \<in> set (x # y # zs)\<close> have bin: "b \<in> set (y # zs)" by auto
    from False ax have "x \<noteq> y" by auto
    with xy have "x < y" by simp
    moreover from bin ylow have "y \<le> b" by blast
    ultimately show ?thesis
      using ax by (auto simp: consecutive_diffs_Cons2)
  qed
qed

lemma detect_step_positives:
  "[d \<leftarrow> consecutive_diffs ys. d > 0] = consecutive_diffs ys"
  by (simp add: consecutive_diffs_pos)

lemma detect_step_unfold:
  "detect_step xs d =
     (if consecutive_diffs (sort xs) = [] then d else Min (set (consecutive_diffs (sort xs))))"
  by (simp add: detect_step_def Let_def detect_step_positives min_list_Min)


lemma detect_step_no_gap:
  "consecutive_diffs (sort xs) = [] \<longleftrightarrow> (\<forall>a \<in> set xs. \<forall>b \<in> set xs. a = b)"
proof
  assume e: "consecutive_diffs (sort xs) = []"
  show "\<forall>a \<in> set xs. \<forall>b \<in> set xs. a = b"
  proof (intro ballI)
    fix a b assume ab: "a \<in> set xs" "b \<in> set xs"
    have "\<not> u < v" if "u \<in> set xs" "v \<in> set xs" for u v
      using consecutive_diffs_below [of "sort xs" u v] that e by auto
    from this [of a b] this [of b a] ab show "a = b" by simp
  qed
next
  assume "\<forall>a \<in> set xs. \<forall>b \<in> set xs. a = b"
  then have "\<not> (\<exists>d. d \<in> set (consecutive_diffs (sort xs)))"
    using consecutive_diffs_pair [of _ "sort xs"] by fastforce
  then show "consecutive_diffs (sort xs) = []"
    by (cases "consecutive_diffs (sort xs)") auto
qed

lemma detect_step_exact:
  assumes lo: "a \<in> set xs" "b \<in> set xs" "a < b" "b - a = g"
    and sep: "\<forall>u \<in> set xs. \<forall>v \<in> set xs. u < v \<longrightarrow> g \<le> v - u"
  shows "detect_step xs d = g"
proof -
  let ?D = "consecutive_diffs (sort xs)"
  from consecutive_diffs_below [of "sort xs" a b] lo
  obtain e where e: "e \<in> set ?D" "e \<le> g" by auto
  then have ne: "?D \<noteq> []" by auto
  have ge: "g \<le> k" if "k \<in> set ?D" for k
    using consecutive_diffs_pair [OF that] sep by auto
  from ge [OF e(1)] e have "g \<in> set ?D" by simp
  with ge ne have "Min (set ?D) = g"
    by (intro Min_eqI) auto
  with ne show ?thesis
    by (simp add: detect_step_unfold)
qed

text \<open>
  Claim C7 (amended). \<open>detect_step\<close> returns the least positive difference between
  consecutive elements of the sorted offsets, and the supplied default when there is no
  positive difference, which is exactly when the set has at most one element. For a set
  that contains 0, 25 and 50 the result is 25 provided no two distinct offsets are closer
  than 25, in particular for the set \<open>{0, 25, 50}\<close> itself; for \<open>{0}\<close> it is the
  default.
\<close>

theorem detect_step_min_gap:
  "(let ys = sort xs;
        G = {ys ! Suc i - ys ! i | i. Suc i < length ys \<and> ys ! i < ys ! Suc i}
    in detect_step xs d = (if G = {} then d else Min G)
       \<and> (G = {} \<longleftrightarrow> (\<forall>a \<in> set xs. \<forall>b \<in> set xs. a = b)))
   \<and> ({0, 25, 50} \<subseteq> set xs \<and> (\<forall>a \<in> set xs. \<forall>b \<in> set xs. a < b \<longrightarrow> 25 \<le> b - a)
        \<longrightarrow> detect_step xs d = 25)
   \<and> (set xs = {0, 25, 50} \<longrightarrow> detect_step xs d = 25)
   \<and> (set xs = {0} \<longrightarrow> detect_step xs d = d)"
proof (intro conjI impI)
  show "let ys = sort xs;
        G = {ys ! Suc i - ys ! i | i. Suc i < length ys \<and> ys ! i < ys ! Suc i}
    in detect_step xs d = (if G = {} then d else Min G)
       \<and> (G = {} \<longleftrightarrow> (\<forall>a \<in> set xs. \<forall>b \<in> set xs. a = b))"
    unfolding Let_def set_consecutive_diffs [symmetric]
    using detect_step_no_gap [of xs] by (simp add: detect_step_unfold)
next
  assume "{0, 25, 50} \<subseteq> set xs \<and> (\<forall>a \<in> set xs. \<forall>b \<in> set xs. a < b \<longrightarrow> 25 \<le> b - a)"
  then show "detect_step xs d = 25"
    using detect_step_exact [of 0 xs 25 25 d] by simp
next
  assume s: "set xs = {0, 25, 50}"
  then have "\<forall>u \<in> set xs. \<forall>v \<in> set xs. u < v \<longrightarrow> 25 \<le> v - u"
    by auto
  with s show "detect_step xs d = 25"
    using detect_step_exact [of 0 xs 25 25 d] by simp
next
  assume "set xs = {0}"
  then have "consecutive_diffs (sort xs) = []"
    by (simp add: detect_step_no_gap)
  then show "detect_step xs d = d"
    by (simp add: detect_step_unfold)
qed

theorem detect_step_min_gap_witness:
  "detect_step [50, 0, 25] 7 = 25 \<and> detect_step [0, 75, 25, 50, 100] 7 = 25
   \<and> detect_step [0] 7 = 7"
  using detect_step_min_gap [of "[50, 0, 25]" 7] detect_step_min_gap [of "[0]" 7]
    detect_step_min_gap [of "[0, 75, 25, 50, 100]" 7]
  by (simp add: insert_commute)

text \<open>
  A set that contains 0, 25 and 50 together with a closer offset gets the smaller step:
  with the offsets 0, 10, 25, 50 the detected step is 10.
\<close>

theorem detect_step_superset_counterexample:
  "{0, 25, 50} \<subseteq> set [0, 10, 25, 50] \<and> detect_step [0, 10, 25, 50] 25 \<noteq> 25"
  by (simp add: detect_step_def consecutive_diffs_def)

subsection \<open>Offset discovery\<close>








lemma link_offset_None [simp]: "link_offset pq param ident None = None"
  by (simp add: link_offset_def)







subsection \<open>Saving the session artifact\<close>

lemma write_text_truncates:
  "WriteText p s \<in> set ops \<Longrightarrow> \<exists>fs' \<in> set (visible_states ops fs). fs' p = Some []"
proof (induction ops arbitrary: fs)
  case Nil
  then show ?case by simp
next
  case (Cons x ops)
  show ?case
  proof (cases "x = WriteText p s")
    case True
    then show ?thesis by simp
  next
    case False
    with Cons.prems have "WriteText p s \<in> set ops" by simp
    from Cons.IH [OF this, of "last (run_op x fs)"] show ?thesis
      by auto
  qed
qed

lemma ensure_storage_state_shape:
  "\<exists>ws. (\<forall>w \<in> set ws. \<exists>st. w = WriteText (storage_path_of default_dir self) (dumps st))
         \<and> ensure_storage_state dumps default_dir self file_age manual_outcome auto_outcome =
             (Mkdir (base_dir_of default_dir self) # ws, storage_path_of default_dir self)"
  by (cases manual_outcome; cases auto_outcome)
     (auto simp: ensure_storage_state_def manual_playwright_bootstrap_def Let_def
                 storage_path_of_def base_dir_of_def
           split: option.splits)

lemma not_atomic_when_truncated:
  assumes "WriteText path s \<in> set ops" and "fs path \<noteq> Some []" and "new \<noteq> []"
  shows "\<not> atomic_for_readers ops fs path new"
proof -
  from write_text_truncates [OF assms(1), of fs]
  obtain fs' where f: "fs' \<in> set (visible_states ops fs)" "fs' path = Some []"
    by blast
  from f(2) assms(2,3) have "fs' path \<noteq> fs path \<and> fs' path \<noteq> Some new"
    by auto
  with f(1) show ?thesis
    unfolding atomic_for_readers_def list_all_iff by blast
qed

text \<open>
  Claim C9 (amended). Saving the session artifact writes it in place: apart from creating
  the directory, every file operation of \<^verbatim>\<open>_ensure_storage_state\<close> is a \<^verbatim>\<open>write_text\<close> of a
  serialised state to the session-state path itself; nothing is written to another
  location and nothing is renamed or replaced. A fresh file is left alone; a state with
  cookies captured by the automatic bootstrap is written once, one captured by the
  manual bootstrap twice. Each such write truncates the file before the text is in
  place, so unless the previous content or the new artifact is itself empty, a reader
  can observe a content that is neither the previous artifact nor the new one.
\<close>

theorem session_save_writes_in_place:
  "(case ensure_storage_state dumps default_dir self file_age manual_outcome auto_outcome of
      (ops, path) \<Rightarrow>
        path = storage_path_of default_dir self
        \<and> (\<forall>x \<in> set ops. x = Mkdir (base_dir_of default_dir self)
                          \<or> (\<exists>st. x = WriteText path (dumps st)))
        \<and> (\<forall>s fs. WriteText path s \<in> set ops \<longrightarrow>
               (\<exists>fs' \<in> set (visible_states ops fs). fs' path = Some []))
        \<and> (\<forall>s fs new. WriteText path s \<in> set ops \<and> fs path \<noteq> Some [] \<and> new \<noteq> [] \<longrightarrow>
               \<not> atomic_for_readers ops fs path new))
   \<and> (is_fresh self file_age \<longrightarrow>
        fst (ensure_storage_state dumps default_dir self file_age manual_outcome auto_outcome)
        = [Mkdir (base_dir_of default_dir self)])
   \<and> (\<not> is_fresh self file_age \<and> cf_mode self \<noteq> Manual \<and> bootstrap_mode self \<noteq> ''skip''
        \<and> auto_outcome = Some st \<and> cookies st \<noteq> [] \<longrightarrow>
        fst (ensure_storage_state dumps default_dir self file_age manual_outcome auto_outcome)
        = [Mkdir (base_dir_of default_dir self),
           WriteText (storage_path_of default_dir self) (dumps st)])
   \<and> (\<not> is_fresh self file_age \<and> cf_mode self = Manual
        \<and> manual_outcome = Some st \<and> cookies st \<noteq> [] \<longrightarrow>
        fst (ensure_storage_state dumps default_dir self file_age manual_outcome auto_outcome)
        = [Mkdir (base_dir_of default_dir self),
           WriteText (storage_path_of default_dir self) (dumps st),
           WriteText (storage_path_of default_dir self) (dumps st)])"
proof (intro conjI impI)
  from ensure_storage_state_shape [of default_dir self dumps file_age manual_outcome auto_outcome]
  obtain ws where ws: "\<forall>w \<in> set ws. \<exists>st. w = WriteText (storage_path_of default_dir self) (dumps st)"
    and e: "ensure_storage_state dumps default_dir self file_age manual_outcome auto_outcome =
             (Mkdir (base_dir_of default_dir self) # ws, storage_path_of default_dir self)"
    by blast
  let ?ops = "Mkdir (base_dir_of default_dir self) # ws"
  let ?path = "storage_path_of default_dir self"
  have 2: "\<forall>x \<in> set ?ops. x = Mkdir (base_dir_of default_dir self)
                          \<or> (\<exists>st. x = WriteText ?path (dumps st))"
    using ws by auto
  have 3: "\<forall>s fs. WriteText ?path s \<in> set ?ops \<longrightarrow>
               (\<exists>fs' \<in> set (visible_states ?ops fs). fs' ?path = Some [])"
    using write_text_truncates [of ?path _ ?ops] by blast
  have 4: "\<forall>s fs new. WriteText ?path s \<in> set ?ops \<and> fs ?path \<noteq> Some [] \<and> new \<noteq> [] \<longrightarrow>
               \<not> atomic_for_readers ?ops fs ?path new"
    using not_atomic_when_truncated [of ?path _ ?ops] by blast
  from 2 3 4 show "case ensure_storage_state dumps default_dir self file_age manual_outcome auto_outcome of
      (ops, path) \<Rightarrow>
        path = storage_path_of default_dir self
        \<and> (\<forall>x \<in> set ops. x = Mkdir (base_dir_of default_dir self)
                          \<or> (\<exists>st. x = WriteText path (dumps st)))
        \<and> (\<forall>s fs. WriteText path s \<in> set ops \<longrightarrow>
               (\<exists>fs' \<in> set (visible_states ops fs). fs' path = Some []))
        \<and> (\<forall>s fs new. WriteText path s \<in> set ops \<and> fs path \<noteq> Some [] \<and> new \<noteq> [] \<longrightarrow>
               \<not> atomic_for_readers ops fs path new)"
    unfolding e prod.case by (intro conjI refl)
next
  assume "is_fresh self file_age"
  then show "fst (ensure_storage_state dumps default_dir self file_age manual_outcome auto_outcome)
        = [Mkdir (base_dir_of default_dir self)]"
    by (simp add: ensure_storage_state_def is_fresh_def base_dir_of_def Let_def)
next
  assume "\<not> is_fresh self file_age \<and> cf_mode self \<noteq> Manual \<and> bootstrap_mode self \<noteq> ''skip''
        \<and> auto_outcome = Some st \<and> cookies st \<noteq> []"
  then show "fst (ensure_storage_state dumps default_dir self file_age manual_outcome auto_outcome)
        = [Mkdir (base_dir_of default_dir self),
           WriteText (storage_path_of default_dir self) (dumps st)]"
    by (simp add: ensure_storage_state_def is_fresh_def base_dir_of_def storage_path_of_def Let_def)
next
  assume "\<not> is_fresh self file_age \<and> cf_mode self = Manual
        \<and> manual_outcome = Some st \<and> cookies st \<noteq> []"
  then show "fst (ensure_storage_state dumps default_dir self file_age manual_outcome auto_outcome)
        = [Mkdir (base_dir_of default_dir self),
           WriteText (storage_path_of default_dir self) (dumps st),
           WriteText (storage_path_of default_dir self) (dumps st)]"
    by (simp add: ensure_storage_state_def is_fresh_def base_dir_of_def storage_path_of_def
                  manual_playwright_bootstrap_def Let_def)
qed


theorem session_save_writes_in_place_witness:
  "fst (ensure_storage_state example_dumps ''output'' example_session_spider (Some 50000)
          None (Some example_state))
     = [Mkdir ''data'', WriteText ''data/playwright_state.json'' ''{cookies: cf_clearance}'']
   \<and> fst (ensure_storage_state example_dumps ''output'' example_session_spider (Some 100)
          None (Some example_state))
     = [Mkdir ''data'']"
proof -
  have stale: "\<not> is_fresh example_session_spider (Some 50000)
        \<and> cf_mode example_session_spider \<noteq> Manual
        \<and> bootstrap_mode example_session_spider \<noteq> ''skip''
        \<and> Some example_state = Some example_state \<and> cookies example_state \<noteq> []"
    by (simp add: is_fresh_def example_session_spider_def example_state_def)
  have fresh: "is_fresh example_session_spider (Some 100)"
    by (simp add: is_fresh_def example_session_spider_def)
  have names: "base_dir_of ''output'' example_session_spider = ''data''"
    "storage_path_of ''output'' example_session_spider = ''data/playwright_state.json''"
    "example_dumps example_state = ''{cookies: cf_clearance}''"
    by (simp_all add: base_dir_of_def storage_path_of_def example_session_spider_def
                      example_dumps_def example_state_def)
  from stale have "fst (ensure_storage_state example_dumps ''output'' example_session_spider
          (Some 50000) None (Some example_state))
     = [Mkdir (base_dir_of ''output'' example_session_spider),
        WriteText (storage_path_of ''output'' example_session_spider)
          (example_dumps example_state)]"
    by (rule session_save_writes_in_place
          [THEN conjunct2, THEN conjunct2, THEN conjunct1, THEN mp])
  moreover from fresh have "fst (ensure_storage_state example_dumps ''output''
          example_session_spider (Some 100) None (Some example_state))
     = [Mkdir (base_dir_of ''output'' example_session_spider)]"
    by (rule session_save_writes_in_place [THEN conjunct2, THEN conjunct1, THEN mp])
  ultimately show ?thesis
    by (simp only: names)
qed

text \<open>
  A stale artifact \<^verbatim>\<open>old\<close> refreshed by the automatic bootstrap: the artifact is written
  to the session-state path directly, and between the old content and the new one the
  path holds an empty file.
\<close>

theorem session_save_not_atomic_counterexample:
  "fst (ensure_storage_state example_dumps ''output'' example_session_spider (Some 50000)
          None (Some example_state))
     = [Mkdir ''data'', WriteText ''data/playwright_state.json'' ''{cookies: cf_clearance}'']
   \<and> map (\<lambda>fs. fs ''data/playwright_state.json'')
        (visible_states
           (fst (ensure_storage_state example_dumps ''output'' example_session_spider
                   (Some 50000) None (Some example_state)))
           [''data/playwright_state.json'' \<mapsto> ''old''])
     = [Some ''old'', Some [], Some ''{cookies: cf_clearance}'']
   \<and> \<not> atomic_for_readers
        (fst (ensure_storage_state example_dumps ''output'' example_session_spider
                (Some 50000) None (Some example_state)))
        [''data/playwright_state.json'' \<mapsto> ''old''] ''data/playwright_state.json''
        ''{cookies: cf_clearance}''"
  by code_simp

subsection \<open>Digit runs and \<open>parse_int\<close>\<close>

lemma filter_takeWhile_dropWhile:
  "filter P xs = takeWhile P xs @ filter P (dropWhile P xs)"
  by (induction xs) auto

lemma concat_findall_digits: "concat (findall_digits py s) = filter (is_decimal py) s"
proof (induction py s rule: findall_digits.induct)
  case (1 py)
  show ?case by simp
next
  case (2 py c cs)
  then show ?case
    using filter_takeWhile_dropWhile [of "is_decimal py" cs] by simp
qed

lemma findall_digits_runs:
  "r \<in> set (findall_digits py s) \<Longrightarrow> r \<noteq> [] \<and> (\<forall>c \<in> set r. is_decimal py c)"
proof (induction py s rule: findall_digits.induct)
  case (1 py)
  then show ?case by simp
next
  case (2 py c cs)
  show ?case
  proof (cases "is_decimal py c")
    case True
    with "2.prems" consider (head) "r = c # takeWhile (is_decimal py) cs"
      | (rest) "r \<in> set (findall_digits py (dropWhile (is_decimal py) cs))"
      by auto
    then show ?thesis
    proof cases
      case head
      have "\<forall>x \<in> set (takeWhile (is_decimal py) cs). is_decimal py x"
        by (blast dest: set_takeWhileD)
      with head True show ?thesis by simp
    next
      case rest
      with True "2.IH"(1) show ?thesis by blast
    qed
  next
    case False
    with "2.prems" "2.IH"(2) show ?thesis by simp
  qed
qed

lemma findall_digits_Nil_iff: "findall_digits py s = [] \<longleftrightarrow> (\<forall>c \<in> set s. \<not> is_decimal py c)"
  by (induction py s rule: findall_digits.induct) auto

lemma takeWhile_append_stop: "\<not> P x \<Longrightarrow> takeWhile P (cs @ x # b) = takeWhile P cs"
  by (induction cs) auto

lemma dropWhile_append_stop: "\<not> P x \<Longrightarrow> dropWhile P (cs @ x # b) = dropWhile P cs @ x # b"
  by (induction cs) auto

lemma findall_digits_split:
  "\<not> is_decimal py x \<Longrightarrow> findall_digits py (a @ x # b) = findall_digits py a @ findall_digits py b"
proof (induction py a rule: findall_digits.induct)
  case (1 py)
  then show ?case by simp
next
  case (2 py c cs)
  then show ?case
    by (simp add: takeWhile_append_stop dropWhile_append_stop)
qed

lemma findall_digits_run:
  assumes "r \<noteq> []" and "\<forall>c \<in> set r. is_decimal py c"
  shows "findall_digits py r = [r]"
proof -
  from assms(1) obtain c cs where r: "r = c # cs"
    by (cases r) auto
  from assms(2) r have c: "is_decimal py c" and cs: "\<forall>x \<in> set cs. is_decimal py x"
    by auto
  from cs have t: "takeWhile (is_decimal py) cs = cs"
    by (simp only: takeWhile_eq_all_conv)
  from cs have d: "dropWhile (is_decimal py) cs = []"
    by (simp only: dropWhile_eq_Nil_conv)
  have "findall_digits py (c # cs) =
        (c # takeWhile (is_decimal py) cs) # findall_digits py (dropWhile (is_decimal py) cs)"
    using c by (simp only: findall_digits.simps if_True)
  also have "\<dots> = [c # cs]"
    by (simp only: t d findall_digits.simps)
  finally show ?thesis
    by (simp only: r)
qed

lemma parse_int_Some:
  "parse_int py (Some s) =
     (let ds = [c \<leftarrow> remove_commas s. is_decimal py c]
      in if ds = [] then Inr None
         else if max_str_digits py \<noteq> 0 \<and> max_str_digits py < length ds
              then Inl ValueError
              else Inr (Some (int_of_decimals py ds)))"
proof (cases "[c \<leftarrow> remove_commas s. is_decimal py c] = []")
  case True
  then have "\<forall>c \<in> set (remove_commas s). \<not> is_decimal py c"
    by (simp add: filter_empty_conv)
  then have "findall_digits py (remove_commas s) = []"
    by (simp add: findall_digits_Nil_iff)
  with True show ?thesis
    by (simp add: parse_int_def)
next
  case False
  then have ne: "findall_digits py (remove_commas s) \<noteq> []"
    using concat_findall_digits [of py "remove_commas s"] by auto
  from False have "remove_commas s \<noteq> []" by auto
  then have "s \<noteq> []" by (auto simp: remove_commas_def)
  with ne False show ?thesis
    by (simp add: parse_int_def concat_findall_digits python_int_def Let_def)
qed

lemma parse_int_None_iff:
  "parse_int py v = Inr None \<longleftrightarrow>
     v = None \<or> (\<exists>s. v = Some s \<and> (\<forall>c \<in> set (remove_commas s). \<not> is_decimal py c))"
proof (cases v)
  case None
  then show ?thesis by (simp add: parse_int_def)
next
  case (Some s)
  then show ?thesis
    by (auto simp: parse_int_Some Let_def filter_empty_conv)
qed

lemma parse_int_raises_iff:
  "(\<exists>e. parse_int py (Some s) = Inl e) \<longleftrightarrow>
     max_str_digits py \<noteq> 0
     \<and> max_str_digits py < length [c \<leftarrow> remove_commas s. is_decimal py c]"
  by (auto simp: parse_int_Some Let_def)

lemma is_decimal_remove_commas:
  "\<not> is_decimal py 44 \<Longrightarrow>
     (\<forall>c \<in> set (remove_commas s). \<not> is_decimal py c) \<longleftrightarrow> (\<forall>c \<in> set s. \<not> is_decimal py c)"
  by (auto simp: remove_commas_def)

lemma parse_int_example:
  assumes "ascii_digits py" and "max_str_digits py = 0 \<or> 3 \<le> max_str_digits py"
  shows "parse_int py (Some (code_points ''12 Posts 3 Topics'')) = Inr (Some 123)"
proof -
  from assms(1) have dv: "c < 128 \<Longrightarrow>
      decimal_value py c = (if 48 \<le> c \<and> c \<le> 57 then Some (c - 48) else None)" for c
    by (simp add: ascii_digits_def)
  have cp: "code_points ''12 Posts 3 Topics'' =
      [49, 50, 32, 80, 111, 115, 116, 115, 32, 51, 32, 84, 111, 112, 105, 99, 115]"
    by (simp add: code_points_def)
  have ds: "[c \<leftarrow> remove_commas [49, 50, 32, 80, 111, 115, 116, 115, 32, 51, 32, 84, 111, 112,
                 105, 99, 115]. is_decimal py c] = [49, 50, 51]"
    by (simp add: remove_commas_def is_decimal_def dv)
  have v: "int_of_decimals py [49, 50, 51] = 123"
    by (simp add: int_of_decimals_def dv)
  from assms(2) show ?thesis
    unfolding cp parse_int_Some ds Let_def by (auto simp: v)
qed



text \<open>
  Claim C10 (amended). \<open>parse_int\<close> removes the commas and joins every maximal run of
  decimal digits of what remains into one number: the runs found are non-empty runs of
  digits, a character that is no digit separates the runs on its two sides, a run of
  digits alone is found whole, and the joined runs are the digits of the text in order.
  The result is none exactly for a missing or empty input and for an input without a
  digit. \<^verbatim>\<open>"12 Posts 3 Topics"\<close> gives 123. When the digits are more than the interpreter
  converts (4300 unless configured otherwise), and only then, \<open>parse_int\<close> raises
  \<^verbatim>\<open>ValueError\<close> instead of returning.
\<close>

theorem parse_int_merges_digit_runs:
  "parse_int py None = Inr None
   \<and> parse_int py (Some s) =
       (let ds = concat (findall_digits py (remove_commas s))
        in if ds = [] then Inr None
           else if max_str_digits py \<noteq> 0 \<and> max_str_digits py < length ds
                then Inl ValueError
                else Inr (Some (int_of_decimals py ds)))
   \<and> concat (findall_digits py (remove_commas s)) = [c \<leftarrow> remove_commas s. is_decimal py c]
   \<and> (\<forall>r \<in> set (findall_digits py t). r \<noteq> [] \<and> (\<forall>c \<in> set r. is_decimal py c))
   \<and> (\<not> is_decimal py x \<longrightarrow>
        findall_digits py (a @ x # b) = findall_digits py a @ findall_digits py b)
   \<and> (r \<noteq> [] \<and> (\<forall>c \<in> set r. is_decimal py c) \<longrightarrow> findall_digits py r = [r])
   \<and> (parse_int py v = Inr None \<longleftrightarrow>
        v = None \<or> (\<exists>s'. v = Some s' \<and> (\<forall>c \<in> set (remove_commas s'). \<not> is_decimal py c)))
   \<and> (\<not> is_decimal py 44 \<longrightarrow>
        (parse_int py (Some s) = Inr None \<longleftrightarrow> (\<forall>c \<in> set s. \<not> is_decimal py c)))
   \<and> ((\<exists>e. parse_int py (Some s) = Inl e) \<longleftrightarrow>
        max_str_digits py \<noteq> 0
        \<and> max_str_digits py < length [c \<leftarrow> remove_commas s. is_decimal py c])
   \<and> (ascii_digits py \<and> (max_str_digits py = 0 \<or> 3 \<le> max_str_digits py) \<longrightarrow>
        parse_int py (Some (code_points ''12 Posts 3 Topics'')) = Inr (Some 123))"
proof (intro conjI)
  show "parse_int py None = Inr None"
    by (simp add: parse_int_def)
  show "parse_int py (Some s) =
       (let ds = concat (findall_digits py (remove_commas s))
        in if ds = [] then Inr None
           else if max_str_digits py \<noteq> 0 \<and> max_str_digits py < length ds
                then Inl ValueError
                else Inr (Some (int_of_decimals py ds)))"
    by (simp only: concat_findall_digits parse_int_Some)
  show "concat (findall_digits py (remove_commas s)) = [c \<leftarrow> remove_commas s. is_decimal py c]"
    by (rule concat_findall_digits)
  show "\<forall>r \<in> set (findall_digits py t). r \<noteq> [] \<and> (\<forall>c \<in> set r. is_decimal py c)"
    using findall_digits_runs by blast
  show "\<not> is_decimal py x \<longrightarrow>
        findall_digits py (a @ x # b) = findall_digits py a @ findall_digits py b"
    by (simp add: findall_digits_split)
  show "r \<noteq> [] \<and> (\<forall>c \<in> set r. is_decimal py c) \<longrightarrow> findall_digits py r = [r]"
    by (simp add: findall_digits_run)
  show "parse_int py v = Inr None \<longleftrightarrow>
        v = None \<or> (\<exists>s'. v = Some s' \<and> (\<forall>c \<in> set (remove_commas s'). \<not> is_decimal py c))"
    by (rule parse_int_None_iff)
  show "\<not> is_decimal py 44 \<longrightarrow>
        (parse_int py (Some s) = Inr None \<longleftrightarrow> (\<forall>c \<in> set s. \<not> is_decimal py c))"
    using is_decimal_remove_commas [of py s] parse_int_None_iff [of py "Some s"] by simp
  show "(\<exists>e. parse_int py (Some s) = Inl e) \<longleftrightarrow>
        max_str_digits py \<noteq> 0
        \<and> max_str_digits py < length [c \<leftarrow> remove_commas s. is_decimal py c]"
    by (rule parse_int_raises_iff)
  show "ascii_digits py \<and> (max_str_digits py = 0 \<or> 3 \<le> max_str_digits py) \<longrightarrow>
        parse_int py (Some (code_points ''12 Posts 3 Topics'')) = Inr (Some 123)"
    using parse_int_example [of py] by blast
qed

lemma example_python_ascii: "ascii_digits example_python"
  by (simp add: ascii_digits_def example_python_def)

theorem parse_int_merges_digit_runs_witness:
  "parse_int example_python (Some (code_points ''12 Posts 3 Topics'')) = Inr (Some 123)
   \<and> findall_digits example_python (code_points ''12'') = [code_points ''12'']
   \<and> findall_digits example_python (code_points ''12'' @ 32 # code_points ''3'') =
       findall_digits example_python (code_points ''12'')
       @ findall_digits example_python (code_points ''3'')
   \<and> parse_int example_python (Some (code_points ''Posts'')) = Inr None"
proof -
  note t = parse_int_merges_digit_runs [of example_python "code_points ''Posts''" _
      32 "code_points ''12''" "code_points ''3''" "code_points ''12''"]
  have lim: "max_str_digits example_python = 0 \<or> 3 \<le> max_str_digits example_python"
    by (simp add: example_python_def)
  have sp: "\<not> is_decimal example_python 32" and co: "\<not> is_decimal example_python 44"
    by (simp_all add: is_decimal_def example_python_def)
  have run: "code_points ''12'' \<noteq> [] \<and> (\<forall>c \<in> set (code_points ''12''). is_decimal example_python c)"
    by (simp add: code_points_def is_decimal_def example_python_def)
  have nd: "\<forall>c \<in> set (code_points ''Posts''). \<not> is_decimal example_python c"
    by (simp add: code_points_def is_decimal_def example_python_def)
  from t example_python_ascii lim
  have 1: "parse_int example_python (Some (code_points ''12 Posts 3 Topics'')) = Inr (Some 123)"
    by blast
  from t run have 2: "findall_digits example_python (code_points ''12'') = [code_points ''12'']"
    by blast
  from t sp have 3: "findall_digits example_python (code_points ''12'' @ 32 # code_points ''3'') =
       findall_digits example_python (code_points ''12'')
       @ findall_digits example_python (code_points ''3'')"
    by blast
  from t co nd have 4: "parse_int example_python (Some (code_points ''Posts'')) = Inr None"
    by blast
  from 1 2 3 4 show ?thesis by blast
qed

text \<open>
  A text of 4301 digits \<^verbatim>\<open>1\<close> under the default limit: \<open>parse_int\<close> raises.
\<close>

theorem parse_int_over_limit_counterexample:
  "parse_int example_python (Some (replicate 4301 49)) =
     Inl ValueError"
proof -
  have "is_decimal example_python 49"
    by (simp add: is_decimal_def example_python_def)
  then have "[c \<leftarrow> remove_commas (replicate 4301 49). is_decimal example_python c]
             = replicate 4301 49"
    by (simp add: remove_commas_def)
  moreover have "max_str_digits example_python = 4300"
    by (simp add: example_python_def)
  ultimately show ?thesis
    by (simp add: parse_int_Some Let_def)
qed

section \<open>Properties of the storage pipeline\<close>

subsection \<open>Dictionaries\<close>




















subsection \<open>The buffers are keyed\<close>


lemma keyed_dict_Nil [simp]: "keyed_dict key []"
  by (simp add: keyed_dict_def)








subsection \<open>The topic index\<close>












subsection \<open>Flushing twice\<close>


































end
